theory Spec2Isabelle
  imports Main "HOL-Library.Word"
begin

unbundle bit_operations_syntax

section \<open>The blog application of script.js\<close>

text \<open>
  The class \<open>BlogAppOptimized\<close> keeps four collections in memory (\<open>this.articles\<close>,
  \<open>this.users\<close>, \<open>this.comments\<close>, \<open>this.currentUser\<close>) and mirrors them in the
  browser's \<open>localStorage\<close> under the keys \<open>blogArticles\<close>, \<open>blogUsers\<close>,
  \<open>blogComments\<close> and \<open>blogUser\<close>. The model below passes the whole of that state
  explicitly. What a method reads from outside the state is a parameter: the text of an
  input element, the answer to \<open>confirm\<close> or \<open>prompt\<close>, and the clock. Every method
  that reads \<open>Date.now()\<close> or \<open>new Date()\<close> takes one value \<open>now\<close> (milliseconds
  since the epoch): one run of a handler is taken not to span a clock tick. Rendering
  (the DOM) is not modelled; \<open>showNotification\<close> is, as a list of the notices raised.
  \<open>localStorage\<close> is taken to be present and writable, so \<open>safeSetLocalStorage\<close>
  stores and returns true. JavaScript strings are modelled by \<open>string\<close>, numbers by
  \<open>int\<close>.
\<close>

subsection \<open>JavaScript values\<close>

text \<open>
  \<open>JIso t\<close> is the string \<open>new Date(t).toISOString()\<close>: a non-empty string that
  \<open>new Date(...)\<close> reads back as the time \<open>t\<close>.
\<close>

datatype jsv = JUndefined | JNull | JBool bool | JNum int | JStr string | JIso int

text \<open>An object literal: its fields in order.\<close>

type_synonym jsobj = "(string \<times> jsv) list"

definition getf :: "jsobj \<Rightarrow> string \<Rightarrow> jsv" where
  "getf obj f = (case map_of obj f of None \<Rightarrow> JUndefined | Some v \<Rightarrow> v)"

definition has_field :: "string \<Rightarrow> jsobj \<Rightarrow> bool" where
  "has_field f obj = (f \<in> set (map fst obj))"

definition is_space :: "char \<Rightarrow> bool" where
  "is_space c = ((of_char c :: nat) \<in> {9, 10, 11, 12, 13, 32, 160})"

definition trim :: "string \<Rightarrow> string" where
  "trim s = rev (dropWhile is_space (rev (dropWhile is_space s)))"

fun truthy :: "jsv \<Rightarrow> bool" where
  "truthy JUndefined = False"
| "truthy JNull = False"
| "truthy (JBool b) = b"
| "truthy (JNum n) = (n \<noteq> 0)"
| "truthy (JStr s) = (s \<noteq> [])"
| "truthy (JIso t) = True"

fun is_string :: "jsv \<Rightarrow> bool" where
  "is_string (JStr s) = True"
| "is_string (JIso t) = True"
| "is_string _ = False"

fun is_number :: "jsv \<Rightarrow> bool" where
  "is_number (JNum n) = True"
| "is_number _ = False"

fun trim_empty :: "jsv \<Rightarrow> bool" where
  "trim_empty (JStr s) = (trim s = [])"
| "trim_empty _ = False"

fun num_of :: "jsv \<Rightarrow> int" where
  "num_of (JNum n) = n"
| "num_of _ = 0"

text \<open>\<open>JSON.stringify\<close> leaves out the fields whose value is \<open>undefined\<close>.\<close>

definition stringify_obj :: "jsobj \<Rightarrow> jsobj" where
  "stringify_obj obj = filter (\<lambda>(k, v). v \<noteq> JUndefined) obj"

fun opt_str :: "string option \<Rightarrow> jsv" where
  "opt_str None = JUndefined"
| "opt_str (Some s) = JStr s"

fun opt_bool :: "bool option \<Rightarrow> jsv" where
  "opt_bool None = JUndefined"
| "opt_bool (Some b) = JBool b"

text \<open>A string field is truthy when it is present and not empty.\<close>

fun truthy_str :: "string option \<Rightarrow> bool" where
  "truthy_str None = False"
| "truthy_str (Some s) = (s \<noteq> [])"

subsection \<open>The data model\<close>

text \<open>
  A field that some object of the source lacks is an option: \<open>None\<close> stands for a
  field that is absent, \<open>undefined\<close> or \<open>null\<close>. Time stamps kept as ISO strings
  (\<open>createdAt\<close>, \<open>lastLogin\<close>, \<open>lockedUntil\<close>) are modelled by the time they denote.
\<close>

record user =
  u_id :: "string option"
  username :: "string option"
  password :: "string option"
  isAdmin :: "bool option"
  email :: "string option"
  createdAt :: "int option"
  lastLogin :: "int option"
  loginAttempts :: "int option"
  lockedUntil :: "int option"
  isLocked :: "bool option"

record article =
  a_id :: string
  title :: string
  category :: string
  content :: string
  a_createdAt :: int
  updatedAt :: int
  views :: "int option"

record comment =
  c_id :: string
  articleId :: string
  author :: string
  c_content :: string
  c_createdAt :: int
  c_isAdmin :: jsv
  isPinned :: bool

subsection \<open>Notifications\<close>

datatype ntype = Success | Error | Warning | Info

text \<open>The messages of the modelled methods, with the values they interpolate.\<close>

datatype message =
    LoginFormMissing
  | EnterUsernameAndPassword
  | PasswordTooShort
  | UserNotFound
  | AccountLocked int
  | LoginSucceeded bool
  | TooManyAttempts
  | WrongPassword int
  | CommentIncomplete
  | CommentTooShort
  | CommentTooLong
  | CommentPosted
  | ArticleIdLost
  | CommentFormIncomplete
  | EnterNickname
  | EnterCommentContent
  | OnlyAdminDeletesComments
  | OnlyAdminPinsComments
  | CommentNotFound
  | CommentDeleted
  | CommentPinned bool
  | CannotDeleteAdmin
  | CannotLockAdmin
  | NoSuchUser
  | UserDeleted string
  | UserLockToggled string bool
  | EmailMalformed
  | UserUpdated
  | SelectUsersToLock
  | SelectUsersToDelete
  | UsersLocked nat
  | UsersDeleted nat

record notification =
  n_message :: message
  n_type :: ntype
  n_duration :: int
  n_autoClose :: bool

subsection \<open>The storage and the application state\<close>

text \<open>
  What \<open>localStorage.getItem\<close> and \<open>JSON.parse\<close> give for a key: nothing stored, a
  text that does not parse, or a value. For \<open>blogUsers\<close> the value is looked at more
  closely by the read: it may be something else than an array (\<open>UNonArray z\<close>, where
  \<open>z\<close> tells whether its \<open>length\<close> is \<open>0\<close>), and an element of the array may be
  \<open>null\<close> (\<open>ENull\<close>), another value that is not an object (\<open>EOther\<close>) or an object.
  For the other keys a value that parses is taken to have the shape the application
  writes: an array of articles, an array of comments, a session object or \<open>null\<close>.
\<close>

datatype 'a cell = Missing | Unparsable | Parsed 'a

datatype entry = ENull | EOther | EUser user

datatype users_cell = UMissing | UUnparsable | UNonArray bool | UArray "entry list"

record backup =
  b_timestamp :: int
  b_users :: "user list"
  b_articles :: "article list"
  b_comments :: "comment list"
  b_currentUser :: "jsobj option"

text \<open>
  \<open>ls_lock\<close> holds the records \<open>view_lock_<id>\<close> of \<open>localStorage\<close> and \<open>ss_viewed\<close>
  the records \<open>viewed_<id>\<close> of \<open>sessionStorage\<close>, both keyed by the article id.
  \<open>timers\<close> are the pending \<open>setTimeout\<close> calls that remove a lock: the article id
  and the time the removal is due.
\<close>

record app =
  articles :: "article list"
  users :: "user list"
  comments :: "comment list"
  currentUser :: "jsobj option"
  ls_articles :: "article list cell"
  ls_users :: users_cell
  ls_comments :: "comment list cell"
  ls_user :: "jsobj option cell"
  ls_backup :: "backup option"
  ls_lock :: "string \<rightharpoonup> int"
  ss_viewed :: "string \<rightharpoonup> string"
  timers :: "(string \<times> int) list"
  notifications :: "notification list"

definition showNotification :: "message \<Rightarrow> ntype \<Rightarrow> int \<Rightarrow> bool \<Rightarrow> app \<Rightarrow> app" where
  "showNotification m t d ac st =
     st\<lparr>notifications := notifications st @
        [\<lparr>n_message = m, n_type = t, n_duration = d, n_autoClose = ac\<rparr>]\<rparr>"

text \<open>\<open>Array.prototype.findIndex\<close>: the first index whose element satisfies the test.\<close>

fun findIndex :: "('a \<Rightarrow> bool) \<Rightarrow> 'a list \<Rightarrow> nat option" where
  "findIndex P [] = None"
| "findIndex P (x # xs) =
     (if P x then Some 0 else map_option Suc (findIndex P xs))"

subsection \<open>Reading the storage: safeGetLocalStorage\<close>

text \<open>
  \<open>parsed.some(user => user.username === 'zcr')\<close>. Reading \<open>username\<close> of \<open>null\<close>
  throws, which is \<open>None\<close> here; \<open>some\<close> stops at the first match.
\<close>

fun some_zcr :: "entry list \<Rightarrow> bool option" where
  "some_zcr [] = Some False"
| "some_zcr (ENull # es) = None"
| "some_zcr (EOther # es) = some_zcr es"
| "some_zcr (EUser u # es) =
     (if username u = Some ''zcr'' then Some True else some_zcr es)"

text \<open>
  The filter \<open>user && typeof user === 'object' && user.username && user.password\<close>.
\<close>

fun valid_entries :: "entry list \<Rightarrow> user list" where
  "valid_entries [] = []"
| "valid_entries (ENull # es) = valid_entries es"
| "valid_entries (EOther # es) = valid_entries es"
| "valid_entries (EUser u # es) =
     (if truthy_str (username u) \<and> truthy_str (password u)
      then u # valid_entries es else valid_entries es)"

definition restore_users :: "app \<Rightarrow> user list \<times> app" where
  "restore_users st = (users st, st\<lparr>ls_users := UArray (map EUser (users st))\<rparr>)"

definition safeGetLocalStorage_blogUsers :: "user list \<Rightarrow> app \<Rightarrow> user list \<times> app" where
  "safeGetLocalStorage_blogUsers defaultValue st =
     (case ls_users st of
        UMissing \<Rightarrow>
          if users st \<noteq> [] then restore_users st else (defaultValue, st)
      | UUnparsable \<Rightarrow> (defaultValue, st)
      | UNonArray z \<Rightarrow>
          if z \<and> users st \<noteq> [] then restore_users st else (defaultValue, st)
      | UArray parsed \<Rightarrow>
          if parsed = [] \<and> users st \<noteq> [] then restore_users st
          else (case some_zcr parsed of
                  None \<Rightarrow> (defaultValue, st)
                | Some hasAdmin \<Rightarrow>
                    if \<not> hasAdmin \<and> users st \<noteq> [] \<and>
                       (\<exists>u \<in> set (users st). username u = Some ''zcr'')
                    then restore_users st
                    else (let validUsers = valid_entries parsed in
                          if length validUsers \<noteq> length parsed
                          then (validUsers, st\<lparr>ls_users := UArray (map EUser validUsers)\<rparr>)
                          else (validUsers, st))))"

definition safeGetLocalStorage_blogArticles :: "article list \<Rightarrow> app \<Rightarrow> article list" where
  "safeGetLocalStorage_blogArticles defaultValue st =
     (case ls_articles st of Parsed as \<Rightarrow> as | _ \<Rightarrow> defaultValue)"

definition safeGetLocalStorage_blogComments :: "comment list \<Rightarrow> app \<Rightarrow> comment list" where
  "safeGetLocalStorage_blogComments defaultValue st =
     (case ls_comments st of Parsed cs \<Rightarrow> cs | _ \<Rightarrow> defaultValue)"

definition safeGetLocalStorage_blogUser :: "jsobj option \<Rightarrow> app \<Rightarrow> jsobj option" where
  "safeGetLocalStorage_blogUser defaultValue st =
     (case ls_user st of Parsed u \<Rightarrow> u | _ \<Rightarrow> defaultValue)"

subsection \<open>Writing the storage: safeSetLocalStorage\<close>

definition safeSetLocalStorage_blogUsers :: "user list \<Rightarrow> app \<Rightarrow> app" where
  "safeSetLocalStorage_blogUsers us st = st\<lparr>ls_users := UArray (map EUser us)\<rparr>"

definition safeSetLocalStorage_blogArticles :: "article list \<Rightarrow> app \<Rightarrow> app" where
  "safeSetLocalStorage_blogArticles as st = st\<lparr>ls_articles := Parsed as\<rparr>"

definition safeSetLocalStorage_blogComments :: "comment list \<Rightarrow> app \<Rightarrow> app" where
  "safeSetLocalStorage_blogComments cs st = st\<lparr>ls_comments := Parsed cs\<rparr>"

definition safeSetLocalStorage_blogUser :: "jsobj option \<Rightarrow> app \<Rightarrow> app" where
  "safeSetLocalStorage_blogUser u st = st\<lparr>ls_user := Parsed (map_option stringify_obj u)\<rparr>"

subsection \<open>The view counter\<close>

text \<open>
  \<open>updateViewsWithLock\<close>. The lock record holds \<open>lockTimestamp.toString()\<close>, a
  non-empty string that \<open>parseInt\<close> reads back. The \<open>finally\<close> block runs on every
  path after the lock is set and schedules its removal one second later.
\<close>

definition bump_views :: "article \<Rightarrow> article" where
  "bump_views a = a\<lparr>views := Some ((case views a of None \<Rightarrow> 0 | Some v \<Rightarrow> v) + 1)\<rparr>"

text \<open>\<open>existingLock && (Date.now() - parseInt(existingLock)) < 1000\<close>.\<close>

definition lockYoung :: "string \<Rightarrow> int \<Rightarrow> app \<Rightarrow> bool" where
  "lockYoung aid now st =
     (case ls_lock st aid of
        None \<Rightarrow> False
      | Some existingLock \<Rightarrow> now - existingLock < 1000)"

definition updateViewsWithLock :: "string \<Rightarrow> int \<Rightarrow> app \<Rightarrow> article option \<times> app" where
  "updateViewsWithLock aid now st =
     (if lockYoung aid now st
      then (None, st)
      else
        let st1 = st\<lparr>ls_lock := (ls_lock st)(aid \<mapsto> now)\<rparr>;
            st2 = st1\<lparr>timers := timers st1 @ [(aid, now + 1000)]\<rparr>;
            storedArticles = safeGetLocalStorage_blogArticles [] st1
        in case findIndex (\<lambda>a. a_id a = aid) storedArticles of
             Some i \<Rightarrow>
               let stored' = storedArticles[i := bump_views (storedArticles ! i)]
               in (Some (stored' ! i), safeSetLocalStorage_blogArticles stored' st2)
           | None \<Rightarrow> (None, st2))"

text \<open>The callback of the timer: \<open>localStorage.removeItem(lockId)\<close>.\<close>

definition releaseLock :: "string \<Rightarrow> app \<Rightarrow> app" where
  "releaseLock aid st = st\<lparr>ls_lock := (ls_lock st)(aid := None)\<rparr>"

text \<open>
  \<open>incrementViewsSafely\<close> returns \<open>{increased, updatedArticle}\<close>. The marker
  \<open>sessionStorage.getItem(sessionKey)\<close> counts when it is a non-empty string.
\<close>

definition hasViewed :: "string \<Rightarrow> app \<Rightarrow> bool" where
  "hasViewed aid st = truthy_str (ss_viewed st aid)"

definition incrementViewsSafely ::
  "string \<Rightarrow> int \<Rightarrow> app \<Rightarrow> (bool \<times> article option) \<times> app" where
  "incrementViewsSafely aid now st =
     (if hasViewed aid st then ((False, None), st)
      else
        let st1 = st\<lparr>ss_viewed := (ss_viewed st)(aid \<mapsto> ''true'')\<rparr>;
            (updatedArticle, st2) = updateViewsWithLock aid now st1
        in case updatedArticle of
             Some a \<Rightarrow>
               ((True, Some a),
                (case findIndex (\<lambda>x. a_id x = aid) (articles st2) of
                   Some i \<Rightarrow> st2\<lparr>articles := (articles st2)[i := a]\<rparr>
                 | None \<Rightarrow> st2))
           | None \<Rightarrow> ((False, None), st2))"

text \<open>Calls of \<open>incrementViewsSafely\<close> for one article, one after the other, at the given times.\<close>

fun repeatViews :: "string \<Rightarrow> int list \<Rightarrow> app \<Rightarrow> (bool \<times> article option) list \<times> app" where
  "repeatViews aid [] st = ([], st)"
| "repeatViews aid (t # ts) st =
     (let (r, st1) = incrementViewsSafely aid t st;
          (rs, st2) = repeatViews aid ts st1
      in (r # rs, st2))"

subsection \<open>The password digest\<close>

text \<open>
  \<open>hashPassword\<close> folds the character codes into a 32-bit integer:
  \<open>hash = ((hash << 5) - hash) + char; hash = hash & hash\<close>, and returns
  \<open>Math.abs(hash).toString(16)\<close>.
\<close>

definition digit_char :: "nat \<Rightarrow> char" where
  "digit_char d = ''0123456789abcdef'' ! d"

fun toString16 :: "nat \<Rightarrow> string" where
  "toString16 n =
     (if n < 16 then [digit_char n] else toString16 (n div 16) @ [digit_char (n mod 16)])"

fun toString10 :: "nat \<Rightarrow> string" where
  "toString10 n =
     (if n < 10 then [digit_char n] else toString10 (n div 10) @ [digit_char (n mod 10)])"

definition hash_step :: "32 word \<Rightarrow> char \<Rightarrow> 32 word" where
  "hash_step hash c = (push_bit 5 hash - hash) + of_nat (of_char c)"

definition hashPassword :: "string \<Rightarrow> string" where
  "hashPassword pw = toString16 (nat \<bar>sint (foldl hash_step 0 pw)\<bar>)"

subsection \<open>The administrator account and the integrity check\<close>

text \<open>\<open>this.users = await this.safeGetLocalStorage('blogUsers', [])\<close>.\<close>

definition reloadUsers :: "app \<Rightarrow> app" where
  "reloadUsers st =
     (let (us, st') = safeGetLocalStorage_blogUsers [] st in st'\<lparr>users := us\<rparr>)"

definition has_zcr :: "user list \<Rightarrow> bool" where
  "has_zcr us = (\<exists>u \<in> set us. username u = Some ''zcr'')"

definition adminAccount :: "int \<Rightarrow> user" where
  "adminAccount now =
     \<lparr>u_id = Some ''admin-original'', username = Some ''zcr'',
      password = Some (hashPassword ''20120508''), isAdmin = Some True,
      email = Some ''zcr@blog.com'', createdAt = Some now, lastLogin = None,
      loginAttempts = Some 0, lockedUntil = None, isLocked = None\<rparr>"

text \<open>
  The repair of an existing administrator record: the digest is reset when it differs,
  and each of \<open>id\<close>, \<open>isAdmin\<close>, \<open>email\<close>, \<open>createdAt\<close> is taken from the fresh
  record when the existing one lacks it.
\<close>

definition patchAdmin :: "int \<Rightarrow> user \<Rightarrow> user" where
  "patchAdmin now u =
     u\<lparr>password := Some (hashPassword ''20120508''),
       u_id := (if u_id u = None then u_id (adminAccount now) else u_id u),
       isAdmin := (if isAdmin u = None then isAdmin (adminAccount now) else isAdmin u),
       email := (if email u = None then email (adminAccount now) else email u),
       createdAt := (if createdAt u = None then createdAt (adminAccount now) else createdAt u)\<rparr>"

definition needsUpdate :: "user \<Rightarrow> bool" where
  "needsUpdate u =
     (password u \<noteq> Some (hashPassword ''20120508'') \<or> u_id u = None \<or> isAdmin u = None \<or>
      email u = None \<or> createdAt u = None)"

definition initializeAdminAccount :: "int \<Rightarrow> app \<Rightarrow> app" where
  "initializeAdminAccount now st =
     (let st1 = reloadUsers st in
      case findIndex (\<lambda>u. username u = Some ''zcr'') (users st1) of
        None \<Rightarrow>
          let kept = (if \<exists>u \<in> set (users st1). username u = Some ''admin''
                      then filter (\<lambda>u. username u \<noteq> Some ''admin'') (users st1)
                      else users st1);
              us = kept @ [adminAccount now]
          in safeSetLocalStorage_blogUsers us (st1\<lparr>users := us\<rparr>)
      | Some i \<Rightarrow>
          let existingAdmin = users st1 ! i in
          if needsUpdate existingAdmin
          then let us = (users st1)[i := patchAdmin now existingAdmin]
               in safeSetLocalStorage_blogUsers us (st1\<lparr>users := us\<rparr>)
          else st1)"

text \<open>
  \<open>createDataBackup\<close> writes \<open>blogDataBackup\<close>. \<open>cleanupOldBackups\<close> removes keys
  that start with \<open>blogDataBackup_\<close>, which nothing writes; it has no effect here.
\<close>

definition createDataBackup :: "int \<Rightarrow> app \<Rightarrow> app" where
  "createDataBackup now st =
     (let (us, st1) = safeGetLocalStorage_blogUsers [] st
      in st1\<lparr>ls_backup := Some
           \<lparr>b_timestamp = now, b_users = us,
            b_articles = safeGetLocalStorage_blogArticles [] st1,
            b_comments = safeGetLocalStorage_blogComments [] st1,
            b_currentUser = safeGetLocalStorage_blogUser None st1\<rparr>\<rparr>)"

definition validateDataIntegrity :: "int \<Rightarrow> app \<Rightarrow> app" where
  "validateDataIntegrity now st =
     (let (us, st1) = safeGetLocalStorage_blogUsers [] st;
          st2 = (if \<not> has_zcr us then initializeAdminAccount now st1 else st1)
      in createDataBackup now st2)"

subsection \<open>Login\<close>

text \<open>
  Lines 1978 to 1996 of \<open>handleLoginScreen\<close>: the integrity check and the reloads of
  \<open>this.users\<close> that come before the lookup.
\<close>

definition loginSync :: "string \<Rightarrow> int \<Rightarrow> app \<Rightarrow> app" where
  "loginSync uname now st =
     (let st1 = reloadUsers (validateDataIntegrity now st);
          st2 = (if \<not> has_zcr (users st1) \<and> uname = ''zcr''
                 then reloadUsers (initializeAdminAccount now st1) else st1)
      in reloadUsers st2)"

text \<open>
  \<open>user.lockedUntil && new Date() < new Date(user.lockedUntil)\<close>, and then
  \<open>Math.ceil((new Date(user.lockedUntil) - new Date()) / 60000)\<close>: the minutes left
  when the account is locked.
\<close>

definition lockRemaining :: "user \<Rightarrow> int \<Rightarrow> int option" where
  "lockRemaining u now =
     (case lockedUntil u of
        None \<Rightarrow> None
      | Some t \<Rightarrow> if now < t then Some (- ((now - t) div 60000)) else None)"

text \<open>
  The session object that the login builds: \<open>loginTime\<close> is
  \<open>new Date().toISOString()\<close>, \<open>sessionExpiry\<close> is \<open>Date.now() + 24h\<close>.
\<close>

definition session_of :: "user \<Rightarrow> int \<Rightarrow> jsobj" where
  "session_of user now =
     [(''id'', opt_str (u_id user)),
      (''username'', opt_str (username user)),
      (''isAdmin'', opt_bool (isAdmin user)),
      (''email'', opt_str (email user)),
      (''loginTime'', JIso now),
      (''sessionExpiry'', JNum (now + 24 * 60 * 60 * 1000))]"

text \<open>The branch of a matching digest (lines 2024 to 2067); \<open>i\<close> is the index of \<open>user\<close>.\<close>

definition loginSucceed :: "nat \<Rightarrow> int \<Rightarrow> app \<Rightarrow> app" where
  "loginSucceed i now st =
     (let user = (users st ! i)\<lparr>loginAttempts := Some 0, lockedUntil := None,
                                 lastLogin := Some now\<rparr>;
          st1 = st\<lparr>users := (users st)[i := user], currentUser := Some (session_of user now)\<rparr>;
          st2 = safeSetLocalStorage_blogUsers (users st1) st1;
          st3 = safeSetLocalStorage_blogUser (currentUser st2) st2
      in showNotification (LoginSucceeded (truthy (opt_bool (isAdmin user)))) Success 2500 True st3)"

text \<open>The branch of a wrong password (lines 2068 to 2088).\<close>

definition loginFail :: "nat \<Rightarrow> int \<Rightarrow> app \<Rightarrow> app" where
  "loginFail i now st =
     (let user = users st ! i;
          attempts = (case loginAttempts user of None \<Rightarrow> 0 | Some n \<Rightarrow> n) + 1;
          user1 = user\<lparr>loginAttempts := Some attempts\<rparr>;
          user2 = (if attempts \<ge> 5 then user1\<lparr>lockedUntil := Some (now + 30 * 60 * 1000)\<rparr>
                   else user1);
          st1 = (if attempts \<ge> 5 then showNotification TooManyAttempts Error 0 False st
                 else showNotification (WrongPassword (5 - attempts)) Error 4000 True st);
          st2 = st1\<lparr>users := (users st1)[i := user2]\<rparr>
      in safeSetLocalStorage_blogUsers (users st2) st2)"

text \<open>
  \<open>inputs\<close> is \<open>None\<close> when an input element is missing, else the values of the
  username and the password input.
\<close>

definition handleLoginScreen :: "(string \<times> string) option \<Rightarrow> int \<Rightarrow> app \<Rightarrow> app" where
  "handleLoginScreen inputs now st =
     (case inputs of
        None \<Rightarrow> showNotification LoginFormMissing Error 5000 True st
      | Some (usernameValue, pw) \<Rightarrow>
          let uname = trim usernameValue in
          if uname = [] \<or> pw = []
          then showNotification EnterUsernameAndPassword Error 4000 True st
          else if length pw < 6
          then showNotification PasswordTooShort Error 4000 True st
          else
            let st1 = loginSync uname now st in
            (case findIndex (\<lambda>u. username u = Some uname) (users st1) of
               None \<Rightarrow> showNotification UserNotFound Error 4000 True st1
             | Some i \<Rightarrow>
                 let user = users st1 ! i in
                 (case lockRemaining user now of
                    Some remainingTime \<Rightarrow>
                      showNotification (AccountLocked remainingTime) Error 0 False st1
                  | None \<Rightarrow>
                      if password user = Some (hashPassword pw)
                      then loginSucceed i now st1
                      else loginFail i now st1)))"

subsection \<open>Session validation\<close>

text \<open>
  \<open>validateUserObject\<close>; the candidate is \<open>None\<close> when it is \<open>null\<close> or not an
  object.
\<close>

definition validateUserObject :: "jsobj option \<Rightarrow> int \<Rightarrow> bool" where
  "validateUserObject cand now =
     (case cand of
        None \<Rightarrow> False
      | Some user \<Rightarrow>
          if \<not> truthy (getf user ''username'') \<or> \<not> is_string (getf user ''username'') \<or>
             trim_empty (getf user ''username'')
          then False
          else if \<not> truthy (getf user ''loginTime'') \<or> \<not> is_number (getf user ''loginTime'')
          then False
          else if now - num_of (getf user ''loginTime'') > 30 * 24 * 60 * 60 * 1000
          then False
          else if \<exists>field \<in> set [''username'', ''loginTime'', ''isAdmin'']. \<not> has_field field user
          then False
          else True)"

subsection \<open>Comments\<close>

text \<open>\<open>this.currentUser && this.currentUser.isAdmin\<close>, as a value and as a test.\<close>

definition session_isAdmin :: "app \<Rightarrow> jsv" where
  "session_isAdmin st =
     (case currentUser st of None \<Rightarrow> JNull | Some u \<Rightarrow> getf u ''isAdmin'')"

definition toString10_int :: "int \<Rightarrow> string" where
  "toString10_int i = (if i < 0 then ''-'' @ toString10 (nat (- i)) else toString10 (nat i))"

definition saveComments :: "app \<Rightarrow> app" where
  "saveComments st = safeSetLocalStorage_blogComments (comments st) st"

text \<open>
  \<open>submitComment\<close> returns a boolean. \<open>rnd\<close> is
  \<open>Math.random().toString(36).substr(2, 9)\<close>.
\<close>

definition submitComment ::
  "string \<Rightarrow> string \<Rightarrow> string \<Rightarrow> int \<Rightarrow> string \<Rightarrow> app \<Rightarrow> bool \<times> app" where
  "submitComment aid auth cont now rnd st =
     (if aid = [] \<or> auth = [] \<or> cont = []
      then (False, showNotification CommentIncomplete Error 4000 True st)
      else if length cont < 2
      then (False, showNotification CommentTooShort Error 3000 True st)
      else if length cont > 1000
      then (False, showNotification CommentTooLong Error 4000 True st)
      else
        let c = \<lparr>c_id = ''comment_'' @ toString10_int now @ ''_'' @ rnd,
                 articleId = aid, author = trim auth, c_content = trim cont,
                 c_createdAt = now, c_isAdmin = session_isAdmin st, isPinned = False\<rparr>;
            st1 = saveComments (st\<lparr>comments := comments st @ [c]\<rparr>)
        in (True, showNotification CommentPosted Success 2500 True st1))"

text \<open>
  The handler of the comment form's \<open>submit\<close> event (in \<open>bindCommentEvents\<close>), the
  one caller of \<open>submitComment\<close>. \<open>formArticleId\<close> is \<open>commentForm.dataset.articleId\<close>
  (\<open>None\<close> when it is not set), \<open>inputs\<close> the values of the author and the content
  input (\<open>None\<close> when an input element is missing). Both values are trimmed before they
  are tested and passed on. What the handler does after the call, emptying and hiding
  the form, is rendering.
\<close>

definition commentFormSubmit ::
  "string option \<Rightarrow> (string \<times> string) option \<Rightarrow> int \<Rightarrow> string \<Rightarrow> app \<Rightarrow> app" where
  "commentFormSubmit formArticleId inputs now rnd st =
     (case formArticleId of
        None \<Rightarrow> showNotification ArticleIdLost Error 5000 True st
      | Some aid \<Rightarrow>
          if aid = [] then showNotification ArticleIdLost Error 5000 True st
          else (case inputs of
                  None \<Rightarrow> showNotification CommentFormIncomplete Error 4000 True st
                | Some (authorValue, contentValue) \<Rightarrow>
                    let auth = trim authorValue; cont = trim contentValue in
                    if auth = [] then showNotification EnterNickname Error 3000 True st
                    else if cont = []
                    then showNotification EnterCommentContent Error 3000 True st
                    else snd (submitComment aid auth cont now rnd st)))"

text \<open>\<open>confirmed\<close> is the answer to the \<open>confirm\<close> dialogue.\<close>

definition deleteComment :: "string \<Rightarrow> bool \<Rightarrow> app \<Rightarrow> app" where
  "deleteComment cid confirmed st =
     (if \<not> truthy (session_isAdmin st)
      then showNotification OnlyAdminDeletesComments Error 4000 True st
      else if \<not> confirmed then st
      else (case findIndex (\<lambda>c. c_id c = cid) (comments st) of
              None \<Rightarrow> showNotification CommentNotFound Error 3000 True st
            | Some i \<Rightarrow>
                let st1 = saveComments
                      (st\<lparr>comments := take i (comments st) @ drop (Suc i) (comments st)\<rparr>)
                in showNotification CommentDeleted Success 2500 True st1))"

definition pinComment :: "string \<Rightarrow> app \<Rightarrow> app" where
  "pinComment cid st =
     (if \<not> truthy (session_isAdmin st)
      then showNotification OnlyAdminPinsComments Error 4000 True st
      else (case findIndex (\<lambda>c. c_id c = cid) (comments st) of
              None \<Rightarrow> showNotification CommentNotFound Error 3000 True st
            | Some i \<Rightarrow>
                let c = (comments st ! i)\<lparr>isPinned := \<not> isPinned (comments st ! i)\<rparr>;
                    st1 = saveComments (st\<lparr>comments := (comments st)[i := c]\<rparr>)
                in showNotification (CommentPinned (isPinned c)) Success 2500 True st1))"

subsection \<open>User management\<close>

text \<open>The test \<open>/^[^\s@]+@[^\s@]+\.[^\s@]+$/\<close> of \<open>validateEmail\<close>.\<close>

definition validateEmail :: "string \<Rightarrow> bool" where
  "validateEmail e =
     ((\<forall>c \<in> set e. \<not> is_space c) \<and> length (filter (\<lambda>c. c = CHR ''@'') e) = 1 \<and>
      (let local = takeWhile (\<lambda>c. c \<noteq> CHR ''@'') e;
           dom = drop 1 (dropWhile (\<lambda>c. c \<noteq> CHR ''@'') e)
       in local \<noteq> [] \<and> (\<exists>i \<in> {1 ..< length dom - 1}. dom ! i = CHR ''.'')))"

text \<open>\<open>this.currentUser.username === username\<close>.\<close>

definition session_is :: "string \<Rightarrow> app \<Rightarrow> bool" where
  "session_is uname st =
     (case currentUser st of None \<Rightarrow> False | Some u \<Rightarrow> getf u ''username'' = JStr uname)"

text \<open>
  \<open>editUser\<close>; \<open>answer\<close> is what \<open>prompt\<close> returns (\<open>None\<close> when it is cancelled).
\<close>

definition editUser :: "string \<Rightarrow> string option \<Rightarrow> app \<Rightarrow> app" where
  "editUser uname answer st =
     (case findIndex (\<lambda>u. username u = Some uname) (users st) of
        None \<Rightarrow> showNotification NoSuchUser Error 3000 True st
      | Some i \<Rightarrow>
          (case answer of
             None \<Rightarrow> st
           | Some newEmail \<Rightarrow>
               if newEmail \<noteq> [] \<and> \<not> validateEmail newEmail
               then showNotification EmailMalformed Error 3000 True st
               else
                 let u = users st ! i;
                     u' = u\<lparr>email := (if newEmail \<noteq> [] then Some newEmail else email u)\<rparr>;
                     st1 = st\<lparr>users := (users st)[i := u']\<rparr>;
                     st2 = safeSetLocalStorage_blogUsers (users st1) st1
                 in showNotification UserUpdated Success 3000 True st2))"

definition deleteUser :: "string \<Rightarrow> bool \<Rightarrow> app \<Rightarrow> app" where
  "deleteUser uname confirmed st =
     (if uname = ''zcr'' then showNotification CannotDeleteAdmin Error 3000 True st
      else (case findIndex (\<lambda>u. username u = Some uname) (users st) of
              None \<Rightarrow> showNotification NoSuchUser Error 3000 True st
            | Some i \<Rightarrow>
                if \<not> confirmed then st
                else
                  let st1 = st\<lparr>users := filter (\<lambda>u. username u \<noteq> Some uname) (users st),
                              comments := filter (\<lambda>c. author c \<noteq> uname) (comments st)\<rparr>;
                      st2 = (if session_is uname st1
                             then safeSetLocalStorage_blogUser None (st1\<lparr>currentUser := None\<rparr>)
                             else st1);
                      st3 = safeSetLocalStorage_blogComments (comments st2)
                              (safeSetLocalStorage_blogUsers (users st2) st2)
                  in showNotification (UserDeleted uname) Success 3000 True st3))"

text \<open>\<open>user.isLocked = !user.isLocked\<close>: a record without the field becomes locked.\<close>

definition lockUser :: "string \<Rightarrow> app \<Rightarrow> app" where
  "lockUser uname st =
     (if uname = ''zcr'' then showNotification CannotLockAdmin Error 3000 True st
      else (case findIndex (\<lambda>u. username u = Some uname) (users st) of
              None \<Rightarrow> showNotification NoSuchUser Error 3000 True st
            | Some i \<Rightarrow>
                let u = (users st ! i)\<lparr>isLocked := Some (\<not> truthy (opt_bool (isLocked (users st ! i))))\<rparr>;
                    st1 = st\<lparr>users := (users st)[i := u]\<rparr>;
                    st2 = safeSetLocalStorage_blogUsers (users st1) st1
                in showNotification (UserLockToggled uname (truthy (opt_bool (isLocked u))))
                     Success 3000 True st2))"

text \<open>
  The batch operations act on \<open>getSelectedUsers()\<close>, the user names of the ticked
  check boxes; \<open>renderUsersTable\<close> draws a check box for every user.
\<close>

fun lockEach :: "string list \<Rightarrow> user list \<Rightarrow> user list" where
  "lockEach [] us = us"
| "lockEach (uname # rest) us =
     lockEach rest
       (case findIndex (\<lambda>u. username u = Some uname) us of
          None \<Rightarrow> us
        | Some i \<Rightarrow> us[i := (us ! i)\<lparr>isLocked := Some True\<rparr>])"

definition batchLockUsers :: "string list \<Rightarrow> bool \<Rightarrow> app \<Rightarrow> app" where
  "batchLockUsers selectedUsers confirmed st =
     (if selectedUsers = [] then showNotification SelectUsersToLock Warning 3000 True st
      else if \<not> confirmed then st
      else
        let st1 = st\<lparr>users := lockEach selectedUsers (users st)\<rparr>;
            st2 = safeSetLocalStorage_blogUsers (users st1) st1
        in showNotification (UsersLocked (length selectedUsers)) Success 3000 True st2)"

text \<open>
  \<open>selectedUsers.includes(user.username)\<close>: a record without a user name is never
  among the selected names.
\<close>

definition selected :: "string list \<Rightarrow> string option \<Rightarrow> bool" where
  "selected sel n = (case n of None \<Rightarrow> False | Some s \<Rightarrow> s \<in> set sel)"

definition batchDeleteUsers :: "string list \<Rightarrow> bool \<Rightarrow> app \<Rightarrow> app" where
  "batchDeleteUsers selectedUsers confirmed st =
     (if selectedUsers = [] then showNotification SelectUsersToDelete Warning 3000 True st
      else if \<not> confirmed then st
      else
        let st1 = st\<lparr>users := filter (\<lambda>u. \<not> selected selectedUsers (username u)) (users st),
                    comments := filter (\<lambda>c. author c \<notin> set selectedUsers) (comments st)\<rparr>;
            st2 = (if (case currentUser st1 of
                         None \<Rightarrow> False
                       | Some u \<Rightarrow> (case getf u ''username'' of
                                      JStr s \<Rightarrow> s \<in> set selectedUsers
                                    | _ \<Rightarrow> False))
                   then safeSetLocalStorage_blogUser None (st1\<lparr>currentUser := None\<rparr>)
                   else st1);
            st3 = safeSetLocalStorage_blogComments (comments st2)
                    (safeSetLocalStorage_blogUsers (users st2) st2)
        in showNotification (UsersDeleted (length selectedUsers)) Success 3000 True st3)"

subsection \<open>Example data\<close>

definition alice :: user where
  "alice =
     \<lparr>u_id = Some ''u1'', username = Some ''alice'',
      password = Some (hashPassword ''abc123''), isAdmin = Some False,
      email = Some ''alice@example.org'', createdAt = Some 0, lastLogin = None,
      loginAttempts = Some 0, lockedUntil = None, isLocked = None\<rparr>"

definition article1 :: article where
  "article1 =
     \<lparr>a_id = ''a1'', title = ''First'', category = ''tech'', content = ''Hello'',
      a_createdAt = 0, updatedAt = 0, views = Some 7\<rparr>"

definition comment1 :: comment where
  "comment1 =
     \<lparr>c_id = ''c1'', articleId = ''a1'', author = ''alice'', c_content = ''Nice'',
      c_createdAt = 0, c_isAdmin = JBool False, isPinned = False\<rparr>"

text \<open>A logged-out application whose storage agrees with its memory.\<close>

definition app0 :: app where
  "app0 =
     \<lparr>articles = [article1], users = [adminAccount 0, alice], comments = [comment1],
      currentUser = None,
      ls_articles = Parsed [article1],
      ls_users = UArray [EUser (adminAccount 0), EUser alice],
      ls_comments = Parsed [comment1],
      ls_user = Parsed None, ls_backup = None,
      ls_lock = Map.empty, ss_viewed = Map.empty, timers = [], notifications = []\<rparr>"

text \<open>The state \<open>app0\<close> with another record for \<open>alice\<close>, in memory and in storage.\<close>

definition with_alice :: "user \<Rightarrow> app" where
  "with_alice a =
     app0\<lparr>users := [adminAccount 0, a], ls_users := UArray [EUser (adminAccount 0), EUser a]\<rparr>"

subsection \<open>Predicates used in the statements\<close>

text \<open>
  The storage agrees with the memory on the users: \<open>blogUsers\<close> holds exactly
  \<open>this.users\<close>, every record has a user name and a digest, and the administrator
  is among them.
\<close>

definition in_sync :: "app \<Rightarrow> bool" where
  "in_sync st =
     (ls_users st = UArray (map EUser (users st)) \<and>
      (\<forall>u \<in> set (users st). truthy_str (username u) \<and> truthy_str (password u)) \<and>
      has_zcr (users st))"

text \<open>
  \<open>st'\<close> differs from \<open>st\<close> at most in the users (in memory and in storage) and in
  the backup record.
\<close>

definition users_frame :: "app \<Rightarrow> app \<Rightarrow> bool" where
  "users_frame st st' =
     (articles st' = articles st \<and> comments st' = comments st \<and>
      currentUser st' = currentUser st \<and> ls_articles st' = ls_articles st \<and>
      ls_comments st' = ls_comments st \<and> ls_user st' = ls_user st \<and>
      ls_lock st' = ls_lock st \<and> ss_viewed st' = ss_viewed st \<and>
      timers st' = timers st \<and> notifications st' = notifications st)"

text \<open>
  The array read from \<open>blogUsers\<close> holds a record named \<open>zcr\<close>; an entry all of whose
  required fields are there.
\<close>

definition stored_has_zcr :: "entry list \<Rightarrow> bool" where
  "stored_has_zcr es =
     (\<exists>e \<in> set es. case e of EUser u \<Rightarrow> username u = Some ''zcr'' | _ \<Rightarrow> False)"

fun complete_entry :: "entry \<Rightarrow> bool" where
  "complete_entry (EUser u) = (truthy_str (username u) \<and> truthy_str (password u))"
| "complete_entry _ = False"

section \<open>Properties\<close>

subsection \<open>Auxiliary facts\<close>

lemma findIndex_Some:
  "findIndex P xs = Some i \<Longrightarrow> i < length xs \<and> P (xs ! i) \<and> (\<forall>j < i. \<not> P (xs ! j))"
proof (induction xs arbitrary: i)
  case Nil
  then show ?case by simp
next
  case (Cons x xs)
  show ?case
  proof (cases "P x")
    case True
    with Cons.prems show ?thesis by simp
  next
    case False
    with Cons.prems obtain k where k: "findIndex P xs = Some k" "i = Suc k"
      by auto
    from Cons.IH [OF k(1)] False k(2) show ?thesis
      by (auto simp: nth_Cons split: nat.splits)
  qed
qed

lemma findIndex_None: "findIndex P xs = None \<longleftrightarrow> (\<forall>x \<in> set xs. \<not> P x)"
  by (induction xs) auto

subsection \<open>The view counter\<close>

lemma updateViewsWithLock_young:
  "lockYoung aid now st \<Longrightarrow> updateViewsWithLock aid now st = (None, st)"
  by (simp add: updateViewsWithLock_def)

lemma updateViewsWithLock_found:
  assumes "\<not> lockYoung aid now st"
    and "ls_articles st = Parsed stored"
    and "findIndex (\<lambda>a. a_id a = aid) stored = Some i"
  shows "updateViewsWithLock aid now st =
           (Some (bump_views (stored ! i)),
            st\<lparr>ls_lock := (ls_lock st)(aid \<mapsto> now),
               timers := timers st @ [(aid, now + 1000)],
               ls_articles := Parsed (stored[i := bump_views (stored ! i)])\<rparr>)"
proof -
  from findIndex_Some [OF assms(3)] have "i < length stored" by simp
  with assms show ?thesis
    by (simp add: updateViewsWithLock_def Let_def
        safeGetLocalStorage_blogArticles_def safeSetLocalStorage_blogArticles_def)
qed

lemma updateViewsWithLock_absent:
  assumes "\<not> lockYoung aid now st"
    and "findIndex (\<lambda>a. a_id a = aid) (safeGetLocalStorage_blogArticles [] st) = None"
  shows "updateViewsWithLock aid now st =
           (None, st\<lparr>ls_lock := (ls_lock st)(aid \<mapsto> now),
                      timers := timers st @ [(aid, now + 1000)]\<rparr>)"
  using assms
  by (simp add: updateViewsWithLock_def Let_def safeGetLocalStorage_blogArticles_def)

lemma updateViewsWithLock_ss_viewed:
  "ss_viewed (snd (updateViewsWithLock aid now st)) = ss_viewed st"
  by (simp add: updateViewsWithLock_def Let_def safeSetLocalStorage_blogArticles_def
      split: option.splits)

lemma incrementViewsSafely_viewed:
  "hasViewed aid st \<Longrightarrow> incrementViewsSafely aid now st = ((False, None), st)"
  by (simp add: incrementViewsSafely_def)

lemma incrementViewsSafely_marks:
  "hasViewed aid (snd (incrementViewsSafely aid now st))"
proof (cases "hasViewed aid st")
  case True
  then show ?thesis by (simp add: incrementViewsSafely_def)
next
  case False
  let ?st1 = "st\<lparr>ss_viewed := (ss_viewed st)(aid \<mapsto> ''true'')\<rparr>"
  have "ss_viewed (snd (updateViewsWithLock aid now ?st1)) aid = Some ''true''"
    by (simp add: updateViewsWithLock_ss_viewed)
  with False show ?thesis
    by (auto simp: incrementViewsSafely_def hasViewed_def Let_def
        split: prod.splits option.splits)
qed

lemma repeatViews_viewed:
  "hasViewed aid st \<Longrightarrow> repeatViews aid ts st = (replicate (length ts) (False, None), st)"
  by (induction ts) (simp_all add: incrementViewsSafely_viewed)

text \<open>
  Claim C4. In \<open>updateViewsWithLock\<close>, a lock record younger than one second makes the
  call return \<open>null\<close> and leave everything as it was, the article collection included.
  Otherwise, when the collection stored under \<open>blogArticles\<close> holds the article (first
  at index \<open>i\<close>), the call returns that stored article with \<open>views\<close> one higher (a
  missing \<open>views\<close> counting as \<open>0\<close>), and the whole stored collection is written back
  with that one element replaced. The article is taken from the storage: the in-memory
  \<open>this.articles\<close> has no influence on what is returned.
\<close>

theorem updateViewsWithLock_locked_update:
  "(lockYoung aid now st \<longrightarrow> updateViewsWithLock aid now st = (None, st)) \<and>
   (\<not> lockYoung aid now st \<and> ls_articles st = Parsed stored \<and>
    findIndex (\<lambda>a. a_id a = aid) stored = Some i \<longrightarrow>
      updateViewsWithLock aid now st =
        (Some ((stored ! i)\<lparr>views := Some ((case views (stored ! i) of None \<Rightarrow> 0 | Some v \<Rightarrow> v) + 1)\<rparr>),
         st\<lparr>ls_lock := (ls_lock st)(aid \<mapsto> now),
            timers := timers st @ [(aid, now + 1000)],
            ls_articles := Parsed (stored[i :=
              (stored ! i)\<lparr>views := Some ((case views (stored ! i) of None \<Rightarrow> 0 | Some v \<Rightarrow> v) + 1)\<rparr>])\<rparr>) \<and>
      (\<forall>cache. fst (updateViewsWithLock aid now (st\<lparr>articles := cache\<rparr>)) =
                fst (updateViewsWithLock aid now st)))"
proof (intro conjI impI)
  assume "lockYoung aid now st"
  then show "updateViewsWithLock aid now st = (None, st)"
    by (rule updateViewsWithLock_young)
next
  assume a: "\<not> lockYoung aid now st \<and> ls_articles st = Parsed stored \<and>
    findIndex (\<lambda>a. a_id a = aid) stored = Some i"
  then show "updateViewsWithLock aid now st =
        (Some ((stored ! i)\<lparr>views := Some ((case views (stored ! i) of None \<Rightarrow> 0 | Some v \<Rightarrow> v) + 1)\<rparr>),
         st\<lparr>ls_lock := (ls_lock st)(aid \<mapsto> now),
            timers := timers st @ [(aid, now + 1000)],
            ls_articles := Parsed (stored[i :=
              (stored ! i)\<lparr>views := Some ((case views (stored ! i) of None \<Rightarrow> 0 | Some v \<Rightarrow> v) + 1)\<rparr>])\<rparr>)"
    using updateViewsWithLock_found [of aid now st stored i]
    by (simp add: bump_views_def)
next
  assume a: "\<not> lockYoung aid now st \<and> ls_articles st = Parsed stored \<and>
    findIndex (\<lambda>a. a_id a = aid) stored = Some i"
  show "\<forall>cache. fst (updateViewsWithLock aid now (st\<lparr>articles := cache\<rparr>)) =
                fst (updateViewsWithLock aid now st)"
  proof
    fix cache
    have "\<not> lockYoung aid now (st\<lparr>articles := cache\<rparr>)"
      using a by (simp add: lockYoung_def)
    then show "fst (updateViewsWithLock aid now (st\<lparr>articles := cache\<rparr>)) =
                fst (updateViewsWithLock aid now st)"
      using a updateViewsWithLock_found [of aid now "st\<lparr>articles := cache\<rparr>" stored i]
        updateViewsWithLock_found [of aid now st stored i]
      by simp
  qed
qed

text \<open>
  The same at a state whose lock for \<open>a1\<close> was set at time 5000: a call at 5400 is
  skipped, a call at 6000 raises the stored views of \<open>a1\<close> from 7 to 8.
\<close>

theorem updateViewsWithLock_locked_update_witness:
  "lockYoung ''a1'' 5400 (app0\<lparr>ls_lock := [''a1'' \<mapsto> 5000]\<rparr>) \<and>
   updateViewsWithLock ''a1'' 5400 (app0\<lparr>ls_lock := [''a1'' \<mapsto> 5000]\<rparr>) =
     (None, app0\<lparr>ls_lock := [''a1'' \<mapsto> 5000]\<rparr>) \<and>
   \<not> lockYoung ''a1'' 6000 (app0\<lparr>ls_lock := [''a1'' \<mapsto> 5000]\<rparr>) \<and>
   ls_articles (app0\<lparr>ls_lock := [''a1'' \<mapsto> 5000]\<rparr>) = Parsed [article1] \<and>
   findIndex (\<lambda>a. a_id a = ''a1'') [article1] = Some 0 \<and>
   fst (updateViewsWithLock ''a1'' 6000 (app0\<lparr>ls_lock := [''a1'' \<mapsto> 5000]\<rparr>)) =
     Some (article1\<lparr>views := Some 8\<rparr>) \<and>
   ls_articles (snd (updateViewsWithLock ''a1'' 6000 (app0\<lparr>ls_lock := [''a1'' \<mapsto> 5000]\<rparr>))) =
     Parsed [article1\<lparr>views := Some 8\<rparr>]"
  using updateViewsWithLock_locked_update [of "''a1''" 5400 "app0\<lparr>ls_lock := [''a1'' \<mapsto> 5000]\<rparr>"]
    updateViewsWithLock_locked_update [of "''a1''" 6000 "app0\<lparr>ls_lock := [''a1'' \<mapsto> 5000]\<rparr>" "[article1]" 0]
  by (simp add: lockYoung_def app0_def article1_def)

lemma lockYoung_ss_viewed [simp]:
  "lockYoung aid now (st\<lparr>ss_viewed := m\<rparr>) = lockYoung aid now st"
  by (simp add: lockYoung_def)

lemma incrementViewsSafely_first_found:
  assumes "\<not> hasViewed aid st"
    and "\<not> lockYoung aid now st"
    and "ls_articles st = Parsed stored"
    and "findIndex (\<lambda>a. a_id a = aid) stored = Some i"
  shows "fst (incrementViewsSafely aid now st) = (True, Some (bump_views (stored ! i)))"
    and "ls_articles (snd (incrementViewsSafely aid now st)) =
           Parsed (stored[i := bump_views (stored ! i)])"
proof -
  let ?st1 = "st\<lparr>ss_viewed := (ss_viewed st)(aid \<mapsto> ''true'')\<rparr>"
  have u: "updateViewsWithLock aid now ?st1 =
      (Some (bump_views (stored ! i)),
       ?st1\<lparr>ls_lock := (ls_lock ?st1)(aid \<mapsto> now),
            timers := timers ?st1 @ [(aid, now + 1000)],
            ls_articles := Parsed (stored[i := bump_views (stored ! i)])\<rparr>)"
    using assms by (intro updateViewsWithLock_found) simp_all
  show "fst (incrementViewsSafely aid now st) = (True, Some (bump_views (stored ! i)))"
    using assms(1) by (simp add: incrementViewsSafely_def u)
  show "ls_articles (snd (incrementViewsSafely aid now st)) =
           Parsed (stored[i := bump_views (stored ! i)])"
    using assms(1) by (simp add: incrementViewsSafely_def u split: option.splits)
qed

lemma incrementViewsSafely_first_suppressed:
  assumes "\<not> hasViewed aid st"
    and "lockYoung aid now st \<or>
         findIndex (\<lambda>a. a_id a = aid) (safeGetLocalStorage_blogArticles [] st) = None"
  shows "fst (incrementViewsSafely aid now st) = (False, None)"
    and "ls_articles (snd (incrementViewsSafely aid now st)) = ls_articles st"
    and "articles (snd (incrementViewsSafely aid now st)) = articles st"
proof -
  let ?st1 = "st\<lparr>ss_viewed := (ss_viewed st)(aid \<mapsto> ''true'')\<rparr>"
  have "\<exists>st2. updateViewsWithLock aid now ?st1 = (None, st2) \<and>
          ls_articles st2 = ls_articles st \<and> articles st2 = articles st"
  proof (cases "lockYoung aid now st")
    case True
    then show ?thesis by (simp add: updateViewsWithLock_young)
  next
    case False
    with assms(2) have "findIndex (\<lambda>a. a_id a = aid)
        (safeGetLocalStorage_blogArticles [] ?st1) = None"
      by (simp add: safeGetLocalStorage_blogArticles_def)
    with False show ?thesis
      by (simp add: updateViewsWithLock_absent)
  qed
  then obtain st2 where st2: "updateViewsWithLock aid now ?st1 = (None, st2)"
    "ls_articles st2 = ls_articles st" "articles st2 = articles st"
    by blast
  show "fst (incrementViewsSafely aid now st) = (False, None)"
    using assms(1) by (simp add: incrementViewsSafely_def st2)
  show "ls_articles (snd (incrementViewsSafely aid now st)) = ls_articles st"
    using assms(1) by (simp add: incrementViewsSafely_def st2)
  show "articles (snd (incrementViewsSafely aid now st)) = articles st"
    using assms(1) by (simp add: incrementViewsSafely_def st2)
qed

text \<open>
  Claim C5, as stated, fails: two calls of \<open>incrementViewsSafely\<close> for \<open>a1\<close>, the first
  in the tab session, leave the stored views at 7 when another tab set the lock half a
  second before the first call.
\<close>

theorem incrementViewsSafely_twice_counterexample:
  "\<not> hasViewed ''a1'' (app0\<lparr>ls_lock := [''a1'' \<mapsto> 4500]\<rparr>) \<and>
   ls_articles (app0\<lparr>ls_lock := [''a1'' \<mapsto> 4500]\<rparr>) = Parsed [article1] \<and>
   views article1 = Some 7 \<and>
   ls_articles (snd (incrementViewsSafely ''a1'' 9000
      (snd (incrementViewsSafely ''a1'' 5000 (app0\<lparr>ls_lock := [''a1'' \<mapsto> 4500]\<rparr>))))) =
     Parsed [article1]"
  by (simp add: incrementViewsSafely_def hasViewed_def updateViewsWithLock_def lockYoung_def
      app0_def article1_def)

text \<open>
  Claim C5, amended. Two calls of \<open>incrementViewsSafely\<close> for one article in a tab
  session raise its stored views by at most 1: the second call finds the marker set,
  returns "not increased" and leaves the whole state as it is. The two calls raise the
  views by exactly 1 when the first call meets no marker, no lock younger than one
  second and the article in the stored collection; when the first call meets no
  marker but a young lock, or no such article in storage, the stored collection is
  left as it was.
\<close>

theorem incrementViewsSafely_twice:
  "incrementViewsSafely aid t2 (snd (incrementViewsSafely aid t1 st)) =
     ((False, None), snd (incrementViewsSafely aid t1 st)) \<and>
   (\<not> hasViewed aid st \<and> \<not> lockYoung aid t1 st \<and> ls_articles st = Parsed stored \<and>
    findIndex (\<lambda>a. a_id a = aid) stored = Some i \<longrightarrow>
      ls_articles (snd (incrementViewsSafely aid t2 (snd (incrementViewsSafely aid t1 st)))) =
        Parsed (stored[i := (stored ! i)
          \<lparr>views := Some ((case views (stored ! i) of None \<Rightarrow> 0 | Some v \<Rightarrow> v) + 1)\<rparr>])) \<and>
   (\<not> hasViewed aid st \<and>
    (lockYoung aid t1 st \<or>
     findIndex (\<lambda>a. a_id a = aid) (safeGetLocalStorage_blogArticles [] st) = None) \<longrightarrow>
      ls_articles (snd (incrementViewsSafely aid t2 (snd (incrementViewsSafely aid t1 st)))) =
        ls_articles st)"
proof -
  have second: "incrementViewsSafely aid t2 (snd (incrementViewsSafely aid t1 st)) =
     ((False, None), snd (incrementViewsSafely aid t1 st))"
    by (rule incrementViewsSafely_viewed) (rule incrementViewsSafely_marks)
  show ?thesis
    using incrementViewsSafely_first_found(2) [of aid st t1 stored i]
      incrementViewsSafely_first_suppressed(2) [of aid st t1]
    by (simp add: second bump_views_def)
qed

theorem incrementViewsSafely_twice_witness:
  "\<not> hasViewed ''a1'' app0 \<and> \<not> lockYoung ''a1'' 5000 app0 \<and>
   ls_articles app0 = Parsed [article1] \<and>
   findIndex (\<lambda>a. a_id a = ''a1'') [article1] = Some 0 \<and>
   ls_articles (snd (incrementViewsSafely ''a1'' 9000
      (snd (incrementViewsSafely ''a1'' 5000 app0)))) = Parsed [article1\<lparr>views := Some 8\<rparr>] \<and>
   lockYoung ''a1'' 5000 (app0\<lparr>ls_lock := [''a1'' \<mapsto> 4500]\<rparr>) \<and>
   \<not> hasViewed ''a1'' (app0\<lparr>ls_lock := [''a1'' \<mapsto> 4500]\<rparr>) \<and>
   ls_articles (snd (incrementViewsSafely ''a1'' 9000
      (snd (incrementViewsSafely ''a1'' 5000 (app0\<lparr>ls_lock := [''a1'' \<mapsto> 4500]\<rparr>))))) =
     ls_articles (app0\<lparr>ls_lock := [''a1'' \<mapsto> 4500]\<rparr>)"
proof -
  have free: "\<not> hasViewed ''a1'' app0 \<and> \<not> lockYoung ''a1'' 5000 app0 \<and>
      ls_articles app0 = Parsed [article1] \<and>
      findIndex (\<lambda>a. a_id a = ''a1'') [article1] = Some 0"
    by (simp add: hasViewed_def lockYoung_def app0_def article1_def)
  have held: "lockYoung ''a1'' 5000 (app0\<lparr>ls_lock := [''a1'' \<mapsto> 4500]\<rparr>) \<and>
      \<not> hasViewed ''a1'' (app0\<lparr>ls_lock := [''a1'' \<mapsto> 4500]\<rparr>)"
    by (simp add: hasViewed_def lockYoung_def app0_def)
  have r1: "ls_articles (snd (incrementViewsSafely ''a1'' 9000
      (snd (incrementViewsSafely ''a1'' 5000 app0)))) =
      Parsed ([article1][0 := article1
        \<lparr>views := Some ((case views article1 of None \<Rightarrow> 0 | Some v \<Rightarrow> v) + 1)\<rparr>])"
    using free incrementViewsSafely_twice [of "''a1''" 9000 5000 app0 "[article1]" 0]
    by (metis nth_Cons_0)
  have r2: "ls_articles (snd (incrementViewsSafely ''a1'' 9000
      (snd (incrementViewsSafely ''a1'' 5000 (app0\<lparr>ls_lock := [''a1'' \<mapsto> 4500]\<rparr>))))) =
     ls_articles (app0\<lparr>ls_lock := [''a1'' \<mapsto> 4500]\<rparr>)"
    using held
      incrementViewsSafely_twice [of "''a1''" 9000 5000 "app0\<lparr>ls_lock := [''a1'' \<mapsto> 4500]\<rparr>"]
    by blast
  have "[article1][0 := article1
        \<lparr>views := Some ((case views article1 of None \<Rightarrow> 0 | Some v \<Rightarrow> v) + 1)\<rparr>] =
      [article1\<lparr>views := Some 8\<rparr>]"
    by (simp add: article1_def)
  with r1 r2 free held show ?thesis
    by simp
qed

text \<open>
  Claim C9. \<open>incrementViewsSafely\<close> sets the marker before it tries the lock. When
  the first call for an article in a tab session is suppressed (a lock record younger
  than one second, or no such article in the stored collection), it returns "not
  increased", the stored and the in-memory collection keep their views, and the marker
  is set all the same. From then on every call for that article, whatever the storage
  holds by then, returns "not increased" and changes nothing.
\<close>

theorem incrementViewsSafely_view_lost:
  "\<not> hasViewed aid st \<and>
   (lockYoung aid now st \<or>
    findIndex (\<lambda>a. a_id a = aid) (safeGetLocalStorage_blogArticles [] st) = None) \<longrightarrow>
     fst (incrementViewsSafely aid now st) = (False, None) \<and>
     ls_articles (snd (incrementViewsSafely aid now st)) = ls_articles st \<and>
     articles (snd (incrementViewsSafely aid now st)) = articles st \<and>
     hasViewed aid (snd (incrementViewsSafely aid now st)) \<and>
     (\<forall>ts. repeatViews aid ts (snd (incrementViewsSafely aid now st)) =
              (replicate (length ts) (False, None), snd (incrementViewsSafely aid now st))) \<and>
     (\<forall>st' t. ss_viewed st' = ss_viewed (snd (incrementViewsSafely aid now st)) \<longrightarrow>
              incrementViewsSafely aid t st' = ((False, None), st'))"
proof (intro impI)
  assume a: "\<not> hasViewed aid st \<and>
   (lockYoung aid now st \<or>
    findIndex (\<lambda>a. a_id a = aid) (safeGetLocalStorage_blogArticles [] st) = None)"
  let ?s = "snd (incrementViewsSafely aid now st)"
  have m: "hasViewed aid ?s" by (rule incrementViewsSafely_marks)
  have later: "\<forall>st' t. ss_viewed st' = ss_viewed ?s \<longrightarrow>
      incrementViewsSafely aid t st' = ((False, None), st')"
  proof (intro allI impI)
    fix st' :: app and t :: int
    assume "ss_viewed st' = ss_viewed ?s"
    with m have "hasViewed aid st'" by (simp add: hasViewed_def)
    then show "incrementViewsSafely aid t st' = ((False, None), st')"
      by (rule incrementViewsSafely_viewed)
  qed
  from a have "fst (incrementViewsSafely aid now st) = (False, None)"
    and "ls_articles ?s = ls_articles st" and "articles ?s = articles st"
    by (simp_all add: incrementViewsSafely_first_suppressed)
  with m later show "fst (incrementViewsSafely aid now st) = (False, None) \<and>
     ls_articles ?s = ls_articles st \<and> articles ?s = articles st \<and> hasViewed aid ?s \<and>
     (\<forall>ts. repeatViews aid ts ?s = (replicate (length ts) (False, None), ?s)) \<and>
     (\<forall>st' t. ss_viewed st' = ss_viewed ?s \<longrightarrow>
              incrementViewsSafely aid t st' = ((False, None), st'))"
    by (simp add: repeatViews_viewed)
qed

text \<open>
  At a state whose lock for \<open>a1\<close> was set at 4500, the first call at 5000 is lost, and
  so are the calls at 9000 and at 60000, long after the lock has aged.
\<close>

theorem incrementViewsSafely_view_lost_witness:
  "\<not> hasViewed ''a1'' (app0\<lparr>ls_lock := [''a1'' \<mapsto> 4500]\<rparr>) \<and>
   lockYoung ''a1'' 5000 (app0\<lparr>ls_lock := [''a1'' \<mapsto> 4500]\<rparr>) \<and>
   fst (incrementViewsSafely ''a1'' 5000 (app0\<lparr>ls_lock := [''a1'' \<mapsto> 4500]\<rparr>)) = (False, None) \<and>
   fst (repeatViews ''a1'' [9000, 60000]
      (snd (incrementViewsSafely ''a1'' 5000 (app0\<lparr>ls_lock := [''a1'' \<mapsto> 4500]\<rparr>)))) =
     [(False, None), (False, None)] \<and>
   ls_articles (snd (repeatViews ''a1'' [9000, 60000]
      (snd (incrementViewsSafely ''a1'' 5000 (app0\<lparr>ls_lock := [''a1'' \<mapsto> 4500]\<rparr>))))) =
     Parsed [article1]"
proof -
  have h: "\<not> hasViewed ''a1'' (app0\<lparr>ls_lock := [''a1'' \<mapsto> 4500]\<rparr>) \<and>
      lockYoung ''a1'' 5000 (app0\<lparr>ls_lock := [''a1'' \<mapsto> 4500]\<rparr>)"
    by (simp add: hasViewed_def lockYoung_def app0_def)
  have s: "ls_articles (app0\<lparr>ls_lock := [''a1'' \<mapsto> 4500]\<rparr>) = Parsed [article1]"
    by (simp add: app0_def)
  from h s incrementViewsSafely_view_lost [of "''a1''" "app0\<lparr>ls_lock := [''a1'' \<mapsto> 4500]\<rparr>" 5000]
  show ?thesis
    by simp
qed

subsection \<open>Reading the users\<close>

lemma some_zcr_users: "some_zcr (map EUser us) = Some (has_zcr us)"
  by (induction us) (auto simp: has_zcr_def)

lemma valid_entries_users:
  "(\<forall>u \<in> set us. truthy_str (username u) \<and> truthy_str (password u)) \<Longrightarrow>
     valid_entries (map EUser us) = us"
  by (induction us) auto

lemma has_zcr_nonempty: "has_zcr us \<Longrightarrow> us \<noteq> []"
  by (auto simp: has_zcr_def)

lemma safeGetLocalStorage_blogUsers_in_sync:
  assumes "in_sync st"
  shows "safeGetLocalStorage_blogUsers d st = (users st, st)"
proof -
  from assms have ne: "users st \<noteq> []"
    by (simp add: in_sync_def has_zcr_nonempty)
  from assms have v: "valid_entries (map EUser (users st)) = users st"
    by (simp add: in_sync_def valid_entries_users)
  from assms ne v show ?thesis
    by (simp add: safeGetLocalStorage_blogUsers_def in_sync_def some_zcr_users)
qed

lemma users_frame_refl: "users_frame st st"
  by (simp add: users_frame_def)

lemma users_frame_trans:
  "users_frame st st' \<Longrightarrow> users_frame st' st'' \<Longrightarrow> users_frame st st''"
  by (simp add: users_frame_def)

lemma users_frame_upd:
  "users_frame st (st\<lparr>users := us\<rparr>)" "users_frame st (st\<lparr>ls_users := c\<rparr>)"
  "users_frame st (st\<lparr>ls_backup := b\<rparr>)"
  by (simp_all add: users_frame_def)

lemma safeGetLocalStorage_blogUsers_frame:
  "users_frame st (snd (safeGetLocalStorage_blogUsers d st))"
  by (simp add: safeGetLocalStorage_blogUsers_def restore_users_def users_frame_def Let_def
      split: users_cell.splits option.splits)

lemma reloadUsers_frame: "users_frame st (reloadUsers st)"
proof -
  obtain us st' where g: "safeGetLocalStorage_blogUsers [] st = (us, st')"
    by (cases "safeGetLocalStorage_blogUsers [] st")
  with safeGetLocalStorage_blogUsers_frame [of st "[]"] have "users_frame st st'"
    by simp
  then have "users_frame st (st'\<lparr>users := us\<rparr>)"
    by (rule users_frame_trans) (rule users_frame_upd)
  with g show ?thesis by (simp add: reloadUsers_def)
qed

lemma safeSetLocalStorage_blogUsers_frame:
  "users_frame st (safeSetLocalStorage_blogUsers us st)"
  by (simp add: safeSetLocalStorage_blogUsers_def users_frame_upd)

lemma initializeAdminAccount_frame: "users_frame st (initializeAdminAccount now st)"
proof -
  have a: "users_frame (reloadUsers st) (safeSetLocalStorage_blogUsers us (reloadUsers st\<lparr>users := us\<rparr>))"
    for us
    by (rule users_frame_trans [OF users_frame_upd(1) safeSetLocalStorage_blogUsers_frame])
  have "users_frame (reloadUsers st) (initializeAdminAccount now st)"
    unfolding initializeAdminAccount_def Let_def
    by (auto split: option.splits intro: a users_frame_refl)
  with reloadUsers_frame show ?thesis by (rule users_frame_trans)
qed

lemma createDataBackup_frame: "users_frame st (createDataBackup now st)"
proof -
  obtain us st' where g: "safeGetLocalStorage_blogUsers [] st = (us, st')"
    by (cases "safeGetLocalStorage_blogUsers [] st")
  with safeGetLocalStorage_blogUsers_frame [of st "[]"] have "users_frame st st'"
    by simp
  then have "users_frame st (st'\<lparr>ls_backup := b\<rparr>)" for b
    by (rule users_frame_trans) (rule users_frame_upd)
  with g show ?thesis by (simp add: createDataBackup_def)
qed

lemma validateDataIntegrity_frame: "users_frame st (validateDataIntegrity now st)"
proof -
  obtain us st' where g: "safeGetLocalStorage_blogUsers [] st = (us, st')"
    by (cases "safeGetLocalStorage_blogUsers [] st")
  with safeGetLocalStorage_blogUsers_frame [of st "[]"] have f: "users_frame st st'"
    by simp
  have "users_frame st' (if \<not> has_zcr us then initializeAdminAccount now st' else st')"
    by (simp add: initializeAdminAccount_frame users_frame_refl)
  then have "users_frame st'
      (createDataBackup now (if \<not> has_zcr us then initializeAdminAccount now st' else st'))"
    by (rule users_frame_trans) (rule createDataBackup_frame)
  with f have "users_frame st
      (createDataBackup now (if \<not> has_zcr us then initializeAdminAccount now st' else st'))"
    by (rule users_frame_trans)
  with g show ?thesis by (simp add: validateDataIntegrity_def Let_def)
qed

lemma loginSync_frame: "users_frame st (loginSync uname now st)"
proof -
  let ?st1 = "reloadUsers (validateDataIntegrity now st)"
  let ?st2 = "if \<not> has_zcr (users ?st1) \<and> uname = ''zcr''
              then reloadUsers (initializeAdminAccount now ?st1) else ?st1"
  have 1: "users_frame st ?st1"
    by (rule users_frame_trans [OF validateDataIntegrity_frame reloadUsers_frame])
  have "users_frame ?st1 ?st2"
    by (simp add: users_frame_refl
        users_frame_trans [OF initializeAdminAccount_frame reloadUsers_frame])
  with 1 have "users_frame st ?st2" by (rule users_frame_trans)
  then have "users_frame st (reloadUsers ?st2)"
    by (rule users_frame_trans) (rule reloadUsers_frame)
  then show ?thesis by (simp add: loginSync_def Let_def)
qed

lemma users_frame_fields:
  assumes "users_frame st st'"
  shows "currentUser st' = currentUser st" and "ls_user st' = ls_user st"
    and "notifications st' = notifications st" and "articles st' = articles st"
    and "comments st' = comments st" and "ls_articles st' = ls_articles st"
    and "ls_comments st' = ls_comments st"
  using assms by (simp_all add: users_frame_def)

lemma reloadUsers_in_sync: "in_sync st \<Longrightarrow> reloadUsers st = st"
  by (simp add: reloadUsers_def safeGetLocalStorage_blogUsers_in_sync)

lemma in_sync_backup: "in_sync (st\<lparr>ls_backup := b\<rparr>) = in_sync st"
  by (simp add: in_sync_def)

lemma loginSync_in_sync:
  assumes "in_sync st"
  shows "users (loginSync uname now st) = users st"
    and "ls_users (loginSync uname now st) = ls_users st"
proof -
  from assms have z: "has_zcr (users st)" by (simp add: in_sync_def)
  have v: "validateDataIntegrity now st = createDataBackup now st"
    using assms z
    by (simp add: validateDataIntegrity_def safeGetLocalStorage_blogUsers_in_sync)
  obtain b where b: "validateDataIntegrity now st = st\<lparr>ls_backup := b\<rparr>"
    using assms v
    by (simp add: createDataBackup_def safeGetLocalStorage_blogUsers_in_sync)
  have s: "in_sync (st\<lparr>ls_backup := b\<rparr>)"
    using assms by (simp add: in_sync_backup)
  have "loginSync uname now st = st\<lparr>ls_backup := b\<rparr>"
    using z s by (simp add: loginSync_def b reloadUsers_in_sync)
  then show "users (loginSync uname now st) = users st"
    and "ls_users (loginSync uname now st) = ls_users st"
    by simp_all
qed

subsection \<open>Login\<close>

lemma handleLoginScreen_found:
  assumes "trim usernameValue = uname" and "uname \<noteq> []" and "6 \<le> length pw"
    and "findIndex (\<lambda>u. username u = Some uname) (users (loginSync uname now st)) = Some i"
  shows "handleLoginScreen (Some (usernameValue, pw)) now st =
     (case lockRemaining (users (loginSync uname now st) ! i) now of
        Some remainingTime \<Rightarrow>
          showNotification (AccountLocked remainingTime) Error 0 False (loginSync uname now st)
      | None \<Rightarrow>
          if password (users (loginSync uname now st) ! i) = Some (hashPassword pw)
          then loginSucceed i now (loginSync uname now st)
          else loginFail i now (loginSync uname now st))"
proof -
  from assms(3) have "pw \<noteq> []" by auto
  with assms show ?thesis
    by (simp add: handleLoginScreen_def Let_def)
qed

lemma lockRemaining_None:
  "lockRemaining u now = None \<longleftrightarrow> (\<forall>t. lockedUntil u = Some t \<longrightarrow> t \<le> now)"
  by (auto simp: lockRemaining_def split: option.splits)

lemma lockRemaining_Some:
  "lockedUntil u = Some t \<Longrightarrow> now < t \<Longrightarrow>
     lockRemaining u now = Some (- ((now - t) div 60000))"
  by (simp add: lockRemaining_def)

lemma minutes_ceiling:
  fixes now t :: int
  shows "60000 * (- ((now - t) div 60000) - 1) < t - now \<and>
         t - now \<le> 60000 * (- ((now - t) div 60000))"
proof -
  define q where "q = (now - t) div 60000"
  define r where "r = (now - t) mod 60000"
  have "now - t = 60000 * q + r" and "0 \<le> r" and "r < 60000"
    by (simp_all add: q_def r_def)
  then have "60000 * (- q - 1) < t - now \<and> t - now \<le> 60000 * (- q)"
    by (simp add: algebra_simps)
  then show ?thesis by (simp add: q_def)
qed

lemma loginFail_fields:
  "users (loginFail i now st) =
     (users st)[i := (users st ! i)
        \<lparr>loginAttempts := Some ((case loginAttempts (users st ! i) of None \<Rightarrow> 0 | Some n \<Rightarrow> n) + 1),
         lockedUntil :=
           (if 5 \<le> (case loginAttempts (users st ! i) of None \<Rightarrow> 0 | Some n \<Rightarrow> n) + 1
            then Some (now + 30 * 60 * 1000) else lockedUntil (users st ! i))\<rparr>]"
  "ls_users (loginFail i now st) = UArray (map EUser (users (loginFail i now st)))"
  "currentUser (loginFail i now st) = currentUser st"
  "ls_user (loginFail i now st) = ls_user st"
  "notifications (loginFail i now st) = notifications st @
     [if 5 \<le> (case loginAttempts (users st ! i) of None \<Rightarrow> 0 | Some n \<Rightarrow> n) + 1
      then \<lparr>n_message = TooManyAttempts, n_type = Error, n_duration = 0, n_autoClose = False\<rparr>
      else \<lparr>n_message = WrongPassword (5 - ((case loginAttempts (users st ! i) of None \<Rightarrow> 0 | Some n \<Rightarrow> n) + 1)),
            n_type = Error, n_duration = 4000, n_autoClose = True\<rparr>]"
  by (simp_all add: loginFail_def Let_def showNotification_def safeSetLocalStorage_blogUsers_def)

lemma loginSucceed_fields:
  "users (loginSucceed i now st) =
     (users st)[i := (users st ! i)\<lparr>loginAttempts := Some 0, lockedUntil := None,
                                     lastLogin := Some now\<rparr>]"
  "ls_users (loginSucceed i now st) = UArray (map EUser (users (loginSucceed i now st)))"
  "currentUser (loginSucceed i now st) = Some (session_of (users st ! i) now)"
  "ls_user (loginSucceed i now st) = Parsed (Some (stringify_obj (session_of (users st ! i) now)))"
  "notifications (loginSucceed i now st) = notifications st @
     [\<lparr>n_message = LoginSucceeded (truthy (opt_bool (isAdmin (users st ! i)))),
       n_type = Success, n_duration = 2500, n_autoClose = True\<rparr>]"
  by (simp_all add: loginSucceed_def Let_def showNotification_def session_of_def
      safeSetLocalStorage_blogUsers_def safeSetLocalStorage_blogUser_def)

lemma session_of_loginTime: "getf (session_of u now) ''loginTime'' = JIso now"
  by (simp add: session_of_def getf_def)

lemma session_of_stored_loginTime:
  "getf (stringify_obj (session_of u now)) ''loginTime'' = JIso now"
  by (simp add: session_of_def getf_def stringify_obj_def)

lemma session_of_invalid: "\<not> validateUserObject (Some (session_of u now)) t"
  by (simp add: validateUserObject_def session_of_loginTime)

lemma session_of_stored_invalid:
  "\<not> validateUserObject (Some (stringify_obj (session_of u now))) t"
  by (simp add: validateUserObject_def session_of_stored_loginTime)

lemma in_sync_app0: "in_sync app0"
  by (simp add: in_sync_def app0_def has_zcr_def adminAccount_def alice_def hashPassword_def
      digit_char_def)

text \<open>
  Claim C6. Let the form hold a user name (non-empty once trimmed) and a password of
  at least six characters, and let \<open>user\<close> be the record found under that name after
  the reload of the users (\<open>st1\<close>).

  \<^item> If the account is not locked and the digest does not match, \<open>loginAttempts\<close> goes
    up by one (a missing counter counting as \<open>0\<close>); when it reaches 5, \<open>lockedUntil\<close>
    becomes now + 30 minutes and the notice raised does not close by itself (duration 0,
    \<open>autoClose\<close> false), otherwise the notice tells the attempts left; the users are
    written to the storage in both cases and the session is as before.
  \<^item> If \<open>lockedUntil\<close> is in the future, the attempt fails whatever the password:
    nothing changes but a notice that does not close by itself, which carries the
    minutes left, rounded up.
  \<^item> If the account is not locked and the digest matches, the record gets
    \<open>loginAttempts = 0\<close> and \<open>lockedUntil = null\<close>, in memory and in the storage, and
    a session exists.
\<close>

theorem login_lockout_policy:
  assumes "trim usernameValue = uname" and "uname \<noteq> []" and "6 \<le> length pw"
    and "st1 = loginSync uname now st"
    and "findIndex (\<lambda>u. username u = Some uname) (users st1) = Some i"
    and "user = users st1 ! i"
    and "attempts = (case loginAttempts user of None \<Rightarrow> 0 | Some n \<Rightarrow> n) + 1"
    and "res = handleLoginScreen (Some (usernameValue, pw)) now st"
  shows
    "((\<forall>t. lockedUntil user = Some t \<longrightarrow> t \<le> now) \<and> password user \<noteq> Some (hashPassword pw) \<longrightarrow>
        users res = (users st1)[i := user
          \<lparr>loginAttempts := Some attempts,
           lockedUntil := (if 5 \<le> attempts then Some (now + 30 * 60 * 1000)
                           else lockedUntil user)\<rparr>] \<and>
        ls_users res = UArray (map EUser (users res)) \<and>
        currentUser res = currentUser st \<and> ls_user res = ls_user st \<and>
        notifications res = notifications st @
          [if 5 \<le> attempts
           then \<lparr>n_message = TooManyAttempts, n_type = Error, n_duration = 0,
                 n_autoClose = False\<rparr>
           else \<lparr>n_message = WrongPassword (5 - attempts), n_type = Error,
                 n_duration = 4000, n_autoClose = True\<rparr>]) \<and>
     (\<forall>t. lockedUntil user = Some t \<and> now < t \<longrightarrow>
        users res = users st1 \<and> ls_users res = ls_users st1 \<and>
        currentUser res = currentUser st \<and> ls_user res = ls_user st \<and>
        notifications res = notifications st @
          [\<lparr>n_message = AccountLocked (- ((now - t) div 60000)), n_type = Error,
            n_duration = 0, n_autoClose = False\<rparr>] \<and>
        60000 * (- ((now - t) div 60000) - 1) < t - now \<and>
        t - now \<le> 60000 * (- ((now - t) div 60000))) \<and>
     ((\<forall>t. lockedUntil user = Some t \<longrightarrow> t \<le> now) \<and> password user = Some (hashPassword pw) \<longrightarrow>
        loginAttempts (users res ! i) = Some 0 \<and> lockedUntil (users res ! i) = None \<and>
        ls_users res = UArray (map EUser (users res)) \<and>
        currentUser res = Some (session_of user now))"
proof -
  note found = handleLoginScreen_found [OF assms(1,2,3) assms(5) [unfolded assms(4)]]
  have fr: "currentUser st1 = currentUser st" "ls_user st1 = ls_user st"
    "notifications st1 = notifications st"
    using users_frame_fields [OF loginSync_frame [of st uname now]]
    by (simp_all add: assms(4))
  have len: "i < length (users st1)"
    using findIndex_Some [OF assms(5)] by simp
  have mismatch: "users res = (users st1)[i := user
          \<lparr>loginAttempts := Some attempts,
           lockedUntil := (if 5 \<le> attempts then Some (now + 30 * 60 * 1000)
                           else lockedUntil user)\<rparr>] \<and>
        ls_users res = UArray (map EUser (users res)) \<and>
        currentUser res = currentUser st \<and> ls_user res = ls_user st \<and>
        notifications res = notifications st @
          [if 5 \<le> attempts
           then \<lparr>n_message = TooManyAttempts, n_type = Error, n_duration = 0,
                 n_autoClose = False\<rparr>
           else \<lparr>n_message = WrongPassword (5 - attempts), n_type = Error,
                 n_duration = 4000, n_autoClose = True\<rparr>]"
    if "\<forall>t. lockedUntil user = Some t \<longrightarrow> t \<le> now"
      and "password user \<noteq> Some (hashPassword pw)"
  proof -
    from that(1) have "lockRemaining user now = None"
      by (simp add: lockRemaining_None)
    with that(2) have "res = loginFail i now st1"
      using found by (simp add: assms(4,6,8))
    then show ?thesis
      using loginFail_fields [of i now st1] fr
      by (simp add: assms(6,7))
  qed
  have locked: "users res = users st1 \<and> ls_users res = ls_users st1 \<and>
        currentUser res = currentUser st \<and> ls_user res = ls_user st \<and>
        notifications res = notifications st @
          [\<lparr>n_message = AccountLocked (- ((now - t) div 60000)), n_type = Error,
            n_duration = 0, n_autoClose = False\<rparr>] \<and>
        60000 * (- ((now - t) div 60000) - 1) < t - now \<and>
        t - now \<le> 60000 * (- ((now - t) div 60000))"
    if "lockedUntil user = Some t" and "now < t" for t
  proof -
    from that have "lockRemaining user now = Some (- ((now - t) div 60000))"
      by (rule lockRemaining_Some)
    then have "res = showNotification (AccountLocked (- ((now - t) div 60000))) Error 0 False st1"
      using found by (simp add: assms(4,6,8))
    then show ?thesis
      using fr minutes_ceiling [of now t] by (simp add: showNotification_def)
  qed
  have match: "loginAttempts (users res ! i) = Some 0 \<and> lockedUntil (users res ! i) = None \<and>
        ls_users res = UArray (map EUser (users res)) \<and>
        currentUser res = Some (session_of user now)"
    if "\<forall>t. lockedUntil user = Some t \<longrightarrow> t \<le> now"
      and "password user = Some (hashPassword pw)"
  proof -
    from that(1) have "lockRemaining user now = None"
      by (simp add: lockRemaining_None)
    with that(2) have "res = loginSucceed i now st1"
      using found by (simp add: assms(4,6,8))
    then show ?thesis
      using len by (simp add: loginSucceed_fields assms(6))
  qed
  from mismatch locked match show ?thesis by blast
qed
lemma in_sync_with_alice:
  "username a = Some ''alice'' \<Longrightarrow> password a = Some (hashPassword ''abc123'') \<Longrightarrow>
     in_sync (with_alice a)"
  by (simp add: in_sync_def with_alice_def app0_def has_zcr_def adminAccount_def
      hashPassword_def hash_step_def digit_char_def)

lemma loginSync_with_alice:
  assumes "username a = Some ''alice''" and "password a = Some (hashPassword ''abc123'')"
  shows "users (loginSync uname now (with_alice a)) = [adminAccount 0, a]"
    and "findIndex (\<lambda>u. username u = Some ''alice'') (users (loginSync uname now (with_alice a))) =
           Some 1"
proof -
  show u: "users (loginSync uname now (with_alice a)) = [adminAccount 0, a]"
    using loginSync_in_sync(1) [OF in_sync_with_alice [OF assms]]
    by (simp add: with_alice_def)
  show "findIndex (\<lambda>u. username u = Some ''alice'') (users (loginSync uname now (with_alice a))) =
           Some 1"
    by (simp add: u assms(1) adminAccount_def)
qed

lemma trim_alice: "trim ''alice'' = ''alice''"
  by (simp add: trim_def is_space_def)

lemma digest_wrong12: "hashPassword ''abc123'' \<noteq> hashPassword ''wrong12''"
  by (simp add: hashPassword_def hash_step_def digit_char_def)

text \<open>
  Alice has failed four times. A fifth wrong password at time 1000000 locks the account
  until 2800000; the right password one minute later is refused with 29 minutes left;
  the right password at 2800000 is accepted and clears the counter and the lock.
\<close>

theorem login_lockout_policy_witness:
  "users (handleLoginScreen (Some (''alice'', ''wrong12'')) 1000000
      (with_alice (alice\<lparr>loginAttempts := Some 4\<rparr>))) =
     [adminAccount 0, alice\<lparr>loginAttempts := Some 5, lockedUntil := Some 2800000\<rparr>] \<and>
   notifications (handleLoginScreen (Some (''alice'', ''wrong12'')) 1000000
      (with_alice (alice\<lparr>loginAttempts := Some 4\<rparr>))) =
     [\<lparr>n_message = TooManyAttempts, n_type = Error, n_duration = 0, n_autoClose = False\<rparr>] \<and>
   notifications (handleLoginScreen (Some (''alice'', ''abc123'')) 1060000
      (with_alice (alice\<lparr>loginAttempts := Some 5, lockedUntil := Some 2800000\<rparr>))) =
     [\<lparr>n_message = AccountLocked 29, n_type = Error, n_duration = 0, n_autoClose = False\<rparr>] \<and>
   currentUser (handleLoginScreen (Some (''alice'', ''abc123'')) 1060000
      (with_alice (alice\<lparr>loginAttempts := Some 5, lockedUntil := Some 2800000\<rparr>))) = None \<and>
   loginAttempts (users (handleLoginScreen (Some (''alice'', ''abc123'')) 2800000
      (with_alice (alice\<lparr>loginAttempts := Some 5, lockedUntil := Some 2800000\<rparr>))) ! 1) = Some 0 \<and>
   lockedUntil (users (handleLoginScreen (Some (''alice'', ''abc123'')) 2800000
      (with_alice (alice\<lparr>loginAttempts := Some 5, lockedUntil := Some 2800000\<rparr>))) ! 1) = None"
proof -
  let ?a4 = "alice\<lparr>loginAttempts := Some 4\<rparr>"
  let ?a5 = "alice\<lparr>loginAttempts := Some 5, lockedUntil := Some 2800000\<rparr>"
  have a4: "username ?a4 = Some ''alice''" "password ?a4 = Some (hashPassword ''abc123'')"
    and a5: "username ?a5 = Some ''alice''" "password ?a5 = Some (hashPassword ''abc123'')"
    by (simp_all add: alice_def)
  have ne: "''alice'' \<noteq> []" and len: "6 \<le> length ''wrong12''" "6 \<le> length ''abc123''"
    by simp_all
  have u4: "users (loginSync ''alice'' 1000000 (with_alice ?a4)) ! 1 = ?a4"
    and u5: "users (loginSync ''alice'' now (with_alice ?a5)) ! 1 = ?a5" for now
    by (simp_all add: loginSync_with_alice(1) [OF a4] loginSync_with_alice(1) [OF a5])
  have n0: "notifications (with_alice a) = []" and c0: "currentUser (with_alice a) = None" for a
    by (simp_all add: with_alice_def app0_def)
  have al: "lockedUntil alice = None" "password alice = Some (hashPassword ''abc123'')"
    by (simp_all add: alice_def)
  have fail: "users (handleLoginScreen (Some (''alice'', ''wrong12'')) 1000000 (with_alice ?a4)) =
       [adminAccount 0, alice\<lparr>loginAttempts := Some 5, lockedUntil := Some 2800000\<rparr>] \<and>
     notifications (handleLoginScreen (Some (''alice'', ''wrong12'')) 1000000 (with_alice ?a4)) =
       [\<lparr>n_message = TooManyAttempts, n_type = Error, n_duration = 0, n_autoClose = False\<rparr>]"
    using login_lockout_policy [OF trim_alice ne len(1) refl
        loginSync_with_alice(2) [OF a4] refl refl refl, of 1000000, unfolded u4]
      digest_wrong12
    by (simp add: n0 al loginSync_with_alice(1) [OF a4])
  have locked: "notifications (handleLoginScreen (Some (''alice'', ''abc123'')) 1060000
        (with_alice ?a5)) =
       [\<lparr>n_message = AccountLocked 29, n_type = Error, n_duration = 0, n_autoClose = False\<rparr>] \<and>
     currentUser (handleLoginScreen (Some (''alice'', ''abc123'')) 1060000 (with_alice ?a5)) = None"
    using login_lockout_policy [OF trim_alice ne len(2) refl
        loginSync_with_alice(2) [OF a5] refl refl refl, of 1060000, unfolded u5]
    by (simp add: n0 c0)
  have ok: "loginAttempts (users (handleLoginScreen (Some (''alice'', ''abc123'')) 2800000
        (with_alice ?a5)) ! 1) = Some 0 \<and>
     lockedUntil (users (handleLoginScreen (Some (''alice'', ''abc123'')) 2800000
        (with_alice ?a5)) ! 1) = None"
    using login_lockout_policy [OF trim_alice ne len(2) refl
        loginSync_with_alice(2) [OF a5] refl refl refl, of 2800000, unfolded u5]
    by (simp add: al)
  from fail locked ok show ?thesis by blast
qed

lemma handleLoginScreen_success:
  assumes "trim usernameValue = uname" and "uname \<noteq> []" and "6 \<le> length pw"
    and "findIndex (\<lambda>u. username u = Some uname) (users (loginSync uname now st)) = Some i"
    and "\<forall>t. lockedUntil (users (loginSync uname now st) ! i) = Some t \<longrightarrow> t \<le> now"
    and "password (users (loginSync uname now st) ! i) = Some (hashPassword pw)"
  shows "handleLoginScreen (Some (usernameValue, pw)) now st =
           loginSucceed i now (loginSync uname now st)"
proof -
  from assms(5) have "lockRemaining (users (loginSync uname now st) ! i) now = None"
    by (simp add: lockRemaining_None)
  with assms(6) show ?thesis
    by (simp add: handleLoginScreen_found [OF assms(1-4)])
qed

text \<open>
  Claim C10. The login never looks at \<open>isLocked\<close>, the flag that \<open>lockUser\<close> and
  \<open>batchLockUsers\<close> set: a user whose \<open>isLocked\<close> is true and whose \<open>lockedUntil\<close> is
  \<open>null\<close> or not in the future logs in with the right password. The session is created
  in memory and in the storage, the notice of success is raised, and the flag is still
  set afterwards.
\<close>

theorem login_ignores_isLocked:
  assumes "trim usernameValue = uname" and "uname \<noteq> []" and "6 \<le> length pw"
    and "st1 = loginSync uname now st"
    and "findIndex (\<lambda>u. username u = Some uname) (users st1) = Some i"
    and "user = users st1 ! i"
    and "isLocked user = Some True"
    and "\<forall>t. lockedUntil user = Some t \<longrightarrow> t \<le> now"
    and "password user = Some (hashPassword pw)"
    and "res = handleLoginScreen (Some (usernameValue, pw)) now st"
  shows "currentUser res = Some (session_of user now) \<and>
         ls_user res = Parsed (Some (stringify_obj (session_of user now))) \<and>
         notifications res = notifications st @
           [\<lparr>n_message = LoginSucceeded (truthy (opt_bool (isAdmin user))), n_type = Success,
             n_duration = 2500, n_autoClose = True\<rparr>] \<and>
         isLocked (users res ! i) = Some True"
proof -
  have r: "res = loginSucceed i now st1"
    unfolding assms(10) assms(4)
    using assms(1-3) assms(5,8,9) [unfolded assms(6) assms(4)]
    by (rule handleLoginScreen_success)
  have n: "notifications st1 = notifications st"
    using users_frame_fields(3) [OF loginSync_frame [of st uname now]]
    by (simp add: assms(4))
  have len: "i < length (users st1)"
    using findIndex_Some [OF assms(5)] by simp
  from r n len assms(7) show ?thesis
    by (simp add: loginSucceed_fields assms(6))
qed

lemma lockUser_alice:
  "users (lockUser ''alice'' app0) = [adminAccount 0, alice\<lparr>isLocked := Some True\<rparr>]"
  "ls_users (lockUser ''alice'' app0) =
     UArray (map EUser [adminAccount 0, alice\<lparr>isLocked := Some True\<rparr>])"
  by (simp_all add: lockUser_def app0_def adminAccount_def alice_def Let_def
      showNotification_def safeSetLocalStorage_blogUsers_def)

lemma batchLockUsers_alice:
  "users (batchLockUsers [''alice''] True app0) = [adminAccount 0, alice\<lparr>isLocked := Some True\<rparr>]"
  "ls_users (batchLockUsers [''alice''] True app0) =
     UArray (map EUser [adminAccount 0, alice\<lparr>isLocked := Some True\<rparr>])"
  by (simp_all add: batchLockUsers_def app0_def adminAccount_def alice_def Let_def
      showNotification_def safeSetLocalStorage_blogUsers_def)

lemma in_sync_locked_alice:
  assumes "users st = [adminAccount 0, alice\<lparr>isLocked := Some True\<rparr>]"
    and "ls_users st = UArray (map EUser [adminAccount 0, alice\<lparr>isLocked := Some True\<rparr>])"
  shows "in_sync st"
  using assms
  by (simp add: in_sync_def has_zcr_def adminAccount_def alice_def
      hashPassword_def hash_step_def digit_char_def)

text \<open>
  Alice, locked by \<open>lockUser\<close> in the state \<open>app0\<close>, logs in at time 1000 with the
  right password.
\<close>

theorem login_ignores_isLocked_witness:
  "isLocked (users (lockUser ''alice'' app0) ! 1) = Some True \<and>
   currentUser (handleLoginScreen (Some (''alice'', ''abc123'')) 1000 (lockUser ''alice'' app0)) =
     Some [(''id'', JStr ''u1''), (''username'', JStr ''alice''), (''isAdmin'', JBool False),
           (''email'', JStr ''alice@example.org''), (''loginTime'', JIso 1000),
           (''sessionExpiry'', JNum 86401000)] \<and>
   isLocked (users (handleLoginScreen (Some (''alice'', ''abc123'')) 1000
      (lockUser ''alice'' app0)) ! 1) = Some True"
proof -
  let ?st = "lockUser ''alice'' app0"
  let ?a = "alice\<lparr>isLocked := Some True\<rparr>"
  have sync: "in_sync ?st"
    by (rule in_sync_locked_alice) (rule lockUser_alice)+
  have us: "users (loginSync ''alice'' 1000 ?st) = [adminAccount 0, ?a]"
    using loginSync_in_sync(1) [OF sync] by (simp add: lockUser_alice)
  have fi: "findIndex (\<lambda>u. username u = Some ''alice'') (users (loginSync ''alice'' 1000 ?st)) =
      Some 1"
    by (simp add: us adminAccount_def alice_def)
  have u: "users (loginSync ''alice'' 1000 ?st) ! 1 = ?a"
    by (simp add: us)
  have a: "isLocked ?a = Some True" "\<forall>t. lockedUntil ?a = Some t \<longrightarrow> t \<le> 1000"
    "password ?a = Some (hashPassword ''abc123'')"
    by (simp_all add: alice_def)
  have s: "session_of ?a 1000 =
      [(''id'', JStr ''u1''), (''username'', JStr ''alice''), (''isAdmin'', JBool False),
       (''email'', JStr ''alice@example.org''), (''loginTime'', JIso 1000),
       (''sessionExpiry'', JNum 86401000)]"
    by (simp add: session_of_def alice_def)
  have t: "trim ''alice'' = ''alice''" "''alice'' \<noteq> []" "6 \<le> length ''abc123''"
    by (simp_all add: trim_def is_space_def)
  from login_ignores_isLocked [OF t refl fi refl a [folded u] refl, unfolded u] s
  show ?thesis
    by (simp add: lockUser_alice)
qed

text \<open>
  Claim C1 fails on the code. The session that a successful login creates has
  \<open>loginTime = new Date().toISOString()\<close>, a string, and \<open>validateUserObject\<close>
  rejects a \<open>loginTime\<close> that is not a number. So for every login that succeeds, the
  session in memory and the one read back from the storage fail the validation, at
  every later time. The expiry is the login time plus 24 hours, as a number.
\<close>

theorem login_session_fails_validation:
  assumes "trim usernameValue = uname" and "uname \<noteq> []" and "6 \<le> length pw"
    and "st1 = loginSync uname now st"
    and "findIndex (\<lambda>u. username u = Some uname) (users st1) = Some i"
    and "user = users st1 ! i"
    and "\<forall>t. lockedUntil user = Some t \<longrightarrow> t \<le> now"
    and "password user = Some (hashPassword pw)"
    and "res = handleLoginScreen (Some (usernameValue, pw)) now st"
  shows "currentUser res = Some (session_of user now) \<and>
         safeGetLocalStorage_blogUser None res = Some (stringify_obj (session_of user now)) \<and>
         getf (session_of user now) ''loginTime'' = JIso now \<and>
         getf (session_of user now) ''sessionExpiry'' = JNum (now + 24 * 60 * 60 * 1000) \<and>
         (\<forall>t. \<not> validateUserObject (currentUser res) t) \<and>
         (\<forall>t. \<not> validateUserObject (safeGetLocalStorage_blogUser None res) t)"
proof -
  have r: "res = loginSucceed i now st1"
    unfolding assms(9) assms(4)
    using assms(1-3) assms(5,7,8) [unfolded assms(6) assms(4)]
    by (rule handleLoginScreen_success)
  have c: "currentUser res = Some (session_of user now)"
    and s: "safeGetLocalStorage_blogUser None res = Some (stringify_obj (session_of user now))"
    by (simp_all add: r loginSucceed_fields assms(6) safeGetLocalStorage_blogUser_def)
  have e: "getf (session_of user now) ''sessionExpiry'' = JNum (now + 24 * 60 * 60 * 1000)"
    by (simp add: session_of_def getf_def)
  from c s e show ?thesis
    by (simp add: session_of_loginTime session_of_invalid session_of_stored_invalid)
qed

text \<open>
  The administrator logs in at time 1000 in the state \<open>app0\<close> with the password
  \<open>20120508\<close>; the session is not valid at that same time.
\<close>

theorem login_session_fails_validation_witness:
  "currentUser (handleLoginScreen (Some (''zcr'', ''20120508'')) 1000 app0) =
     Some [(''id'', JStr ''admin-original''), (''username'', JStr ''zcr''),
           (''isAdmin'', JBool True), (''email'', JStr ''zcr@blog.com''),
           (''loginTime'', JIso 1000), (''sessionExpiry'', JNum 86401000)] \<and>
   \<not> validateUserObject
       (currentUser (handleLoginScreen (Some (''zcr'', ''20120508'')) 1000 app0)) 1000 \<and>
   \<not> validateUserObject
       (safeGetLocalStorage_blogUser None
          (handleLoginScreen (Some (''zcr'', ''20120508'')) 1000 app0)) 1000"
proof -
  have us: "users (loginSync ''zcr'' 1000 app0) = [adminAccount 0, alice]"
    using loginSync_in_sync(1) [OF in_sync_app0] by (simp add: app0_def)
  have fi: "findIndex (\<lambda>u. username u = Some ''zcr'') (users (loginSync ''zcr'' 1000 app0)) =
      Some 0"
    by (simp add: us adminAccount_def)
  have u: "users (loginSync ''zcr'' 1000 app0) ! 0 = adminAccount 0"
    by (simp add: us)
  have a: "\<forall>t. lockedUntil (adminAccount 0) = Some t \<longrightarrow> t \<le> 1000"
    "password (adminAccount 0) = Some (hashPassword ''20120508'')"
    by (simp_all add: adminAccount_def)
  have s: "session_of (adminAccount 0) 1000 =
      [(''id'', JStr ''admin-original''), (''username'', JStr ''zcr''),
       (''isAdmin'', JBool True), (''email'', JStr ''zcr@blog.com''),
       (''loginTime'', JIso 1000), (''sessionExpiry'', JNum 86401000)]"
    by (simp add: session_of_def adminAccount_def)
  have t: "trim ''zcr'' = ''zcr''" "''zcr'' \<noteq> []" "6 \<le> length ''20120508''"
    by (simp_all add: trim_def is_space_def)
  from login_session_fails_validation [OF t refl fi refl a [folded u] refl, unfolded u s]
  show ?thesis
    by blast
qed

subsection \<open>User management and comments\<close>

lemma lockEach_length: "length (lockEach sel us) = length us"
  by (induction sel arbitrary: us) (auto split: option.splits)

lemma usernames_lock_update:
  "map username (us[i := (us ! i)\<lparr>isLocked := b\<rparr>]) = map username us"
proof (cases "i < length us")
  case True
  then have "map username (us[i := (us ! i)\<lparr>isLocked := b\<rparr>]) =
      (map username us)[i := map username us ! i]"
    by (simp add: map_update)
  then show ?thesis by (simp only: list_update_id)
next
  case False
  then have "length us \<le> i" by simp
  then show ?thesis by (simp only: list_update_beyond)
qed

lemma lockEach_usernames: "map username (lockEach sel us) = map username us"
proof (induction sel arbitrary: us)
  case Nil
  then show ?case by simp
next
  case (Cons n sel)
  show ?case
  proof (cases "findIndex (\<lambda>u. username u = Some n) us")
    case None
    then show ?thesis by (simp add: Cons.IH)
  next
    case (Some i)
    have "map username (us[i := (us ! i)\<lparr>isLocked := Some True\<rparr>]) = map username us"
      by (rule usernames_lock_update)
    with Some show ?thesis by (simp add: Cons.IH)
  qed
qed

lemma lockEach_keeps_locked:
  "i < length us \<Longrightarrow> isLocked (us ! i) = Some True \<Longrightarrow>
     isLocked (lockEach sel us ! i) = Some True"
proof (induction sel arbitrary: us)
  case Nil
  then show ?case by simp
next
  case (Cons n sel)
  show ?case
  proof (cases "findIndex (\<lambda>u. username u = Some n) us")
    case None
    with Cons show ?thesis by simp
  next
    case (Some j)
    let ?us = "us[j := (us ! j)\<lparr>isLocked := Some True\<rparr>]"
    from Cons.prems have "i < length ?us"
      by simp
    moreover from Cons.prems have "isLocked (?us ! i) = Some True"
      by (cases "j = i") simp_all
    ultimately have "isLocked (lockEach sel ?us ! i) = Some True"
      by (rule Cons.IH)
    with Some show ?thesis by simp
  qed
qed

lemma findIndex_cong_usernames:
  "map username us = map username vs \<Longrightarrow>
     findIndex (\<lambda>u. username u = Some n) us = findIndex (\<lambda>u. username u = Some n) vs"
proof (induction us arbitrary: vs)
  case Nil
  then show ?case by simp
next
  case (Cons u us)
  then obtain v vs' where v: "vs = v # vs'" "username u = username v"
    "map username us = map username vs'"
    by (cases vs) auto
  with Cons.IH [of vs'] show ?case by simp
qed

lemma lockEach_locks:
  "findIndex (\<lambda>u. username u = Some n) us = Some i \<Longrightarrow> n \<in> set sel \<Longrightarrow>
     isLocked (lockEach sel us ! i) = Some True"
proof (induction sel arbitrary: us)
  case Nil
  then show ?case by simp
next
  case (Cons m sel)
  from findIndex_Some [OF Cons.prems(1)] have len: "i < length us" by simp
  show ?case
  proof (cases "m = n")
    case True
    let ?us = "us[i := (us ! i)\<lparr>isLocked := Some True\<rparr>]"
    from len have "i < length ?us" and "isLocked (?us ! i) = Some True"
      by simp_all
    then have "isLocked (lockEach sel ?us ! i) = Some True"
      by (rule lockEach_keeps_locked)
    with True Cons.prems(1) show ?thesis by simp
  next
    case False
    with Cons.prems(2) have n: "n \<in> set sel" by simp
    show ?thesis
    proof (cases "findIndex (\<lambda>u. username u = Some m) us")
      case None
      with Cons.IH [OF Cons.prems(1) n] show ?thesis by simp
    next
      case (Some j)
      let ?us = "us[j := (us ! j)\<lparr>isLocked := Some True\<rparr>]"
      have "map username ?us = map username us"
        by (rule usernames_lock_update)
      then have "findIndex (\<lambda>u. username u = Some n) ?us =
          findIndex (\<lambda>u. username u = Some n) us"
        by (rule findIndex_cong_usernames)
      with Cons.prems(1) have "findIndex (\<lambda>u. username u = Some n) ?us = Some i"
        by simp
      then have "isLocked (lockEach sel ?us ! i) = Some True"
        using n by (rule Cons.IH)
      with Some show ?thesis by simp
    qed
  qed
qed

text \<open>
  The single operations refuse the administrator: \<open>deleteUser\<close> and \<open>lockUser\<close> called
  with \<open>zcr\<close> raise an error notice and change nothing else.
\<close>

lemma single_operations_spare_admin:
  "deleteUser ''zcr'' confirmed st = showNotification CannotDeleteAdmin Error 3000 True st"
  "lockUser ''zcr'' st = showNotification CannotLockAdmin Error 3000 True st"
  by (simp_all add: deleteUser_def lockUser_def)

text \<open>
  Claim C2 fails on the code for the batch operations, which have no such test. When
  \<open>zcr\<close> is among the selected users and the dialogue is confirmed, \<open>batchDeleteUsers\<close>
  leaves no user named \<open>zcr\<close>, in memory and in the storage, and \<open>batchLockUsers\<close> sets
  \<open>isLocked\<close> of the administrator's record.
\<close>

theorem batch_operations_reach_admin:
  "(''zcr'' \<in> set selectedUsers \<longrightarrow>
      \<not> has_zcr (users (batchDeleteUsers selectedUsers True st)) \<and>
      ls_users (batchDeleteUsers selectedUsers True st) =
        UArray (map EUser (users (batchDeleteUsers selectedUsers True st)))) \<and>
   (''zcr'' \<in> set selectedUsers \<and>
    findIndex (\<lambda>u. username u = Some ''zcr'') (users st) = Some i \<longrightarrow>
      username (users (batchLockUsers selectedUsers True st) ! i) = Some ''zcr'' \<and>
      isLocked (users (batchLockUsers selectedUsers True st) ! i) = Some True \<and>
      ls_users (batchLockUsers selectedUsers True st) =
        UArray (map EUser (users (batchLockUsers selectedUsers True st))))"
proof (intro conjI impI)
  assume z: "''zcr'' \<in> set selectedUsers"
  then have ne: "selectedUsers \<noteq> []" by auto
  have u: "users (batchDeleteUsers selectedUsers True st) =
      filter (\<lambda>u. \<not> selected selectedUsers (username u)) (users st)"
    using ne
    by (simp add: batchDeleteUsers_def Let_def showNotification_def
        safeSetLocalStorage_blogUsers_def safeSetLocalStorage_blogComments_def
        safeSetLocalStorage_blogUser_def)
  show "\<not> has_zcr (users (batchDeleteUsers selectedUsers True st))"
    using z by (auto simp: u has_zcr_def selected_def)
  show "ls_users (batchDeleteUsers selectedUsers True st) =
        UArray (map EUser (users (batchDeleteUsers selectedUsers True st)))"
    using ne
    by (simp add: batchDeleteUsers_def Let_def showNotification_def
        safeSetLocalStorage_blogUsers_def safeSetLocalStorage_blogComments_def
        safeSetLocalStorage_blogUser_def)
next
  assume a: "''zcr'' \<in> set selectedUsers \<and>
    findIndex (\<lambda>u. username u = Some ''zcr'') (users st) = Some i"
  then have ne: "selectedUsers \<noteq> []" by auto
  have u: "users (batchLockUsers selectedUsers True st) = lockEach selectedUsers (users st)"
    using ne
    by (simp add: batchLockUsers_def Let_def showNotification_def
        safeSetLocalStorage_blogUsers_def)
  from a findIndex_Some [of "\<lambda>u. username u = Some ''zcr''" "users st" i]
  have i: "i < length (users st)" "username (users st ! i) = Some ''zcr''"
    by simp_all
  have "map username (lockEach selectedUsers (users st)) ! i = map username (users st) ! i"
    by (simp add: lockEach_usernames)
  with i show "username (users (batchLockUsers selectedUsers True st) ! i) = Some ''zcr''"
    by (simp add: u lockEach_length)
  from a have "isLocked (lockEach selectedUsers (users st) ! i) = Some True"
    using lockEach_locks [of "''zcr''" "users st" i selectedUsers] by simp
  then show "isLocked (users (batchLockUsers selectedUsers True st) ! i) = Some True"
    by (simp add: u)
  show "ls_users (batchLockUsers selectedUsers True st) =
        UArray (map EUser (users (batchLockUsers selectedUsers True st)))"
    using ne
    by (simp add: batchLockUsers_def Let_def showNotification_def
        safeSetLocalStorage_blogUsers_def)
qed

text \<open>
  In the state \<open>app0\<close>, with only \<open>zcr\<close> ticked: after the batch deletion no user is
  named \<open>zcr\<close>; after the batch lock the administrator's record, which had no
  \<open>isLocked\<close> field, has \<open>isLocked = true\<close>.
\<close>

theorem batch_operations_reach_admin_witness:
  "has_zcr (users app0) \<and> isLocked (users app0 ! 0) = None \<and>
   \<not> has_zcr (users (batchDeleteUsers [''zcr''] True app0)) \<and>
   users (batchDeleteUsers [''zcr''] True app0) = [alice] \<and>
   username (users (batchLockUsers [''zcr''] True app0) ! 0) = Some ''zcr'' \<and>
   isLocked (users (batchLockUsers [''zcr''] True app0) ! 0) = Some True"
proof -
  have z: "''zcr'' \<in> set [''zcr'']" by simp
  have fi: "findIndex (\<lambda>u. username u = Some ''zcr'') (users app0) = Some 0"
    by (simp add: app0_def adminAccount_def)
  have b: "has_zcr (users app0) \<and> isLocked (users app0 ! 0) = None"
    by (simp add: app0_def has_zcr_def adminAccount_def)
  have d: "users (batchDeleteUsers [''zcr''] True app0) = [alice]"
    by (simp add: batchDeleteUsers_def Let_def showNotification_def selected_def
        safeSetLocalStorage_blogUsers_def safeSetLocalStorage_blogComments_def
        safeSetLocalStorage_blogUser_def app0_def adminAccount_def alice_def)
  from batch_operations_reach_admin [of "[''zcr'']" app0 0] z fi b d
  show ?thesis by simp
qed

text \<open>
  The comment operations test the session: without an administrator's session,
  \<open>deleteComment\<close> and \<open>pinComment\<close> raise an error notice and change nothing else.
\<close>

lemma comment_moderation_gated:
  assumes "\<not> truthy (session_isAdmin st)"
  shows "deleteComment cid confirmed st =
           showNotification OnlyAdminDeletesComments Error 4000 True st"
    and "pinComment cid st = showNotification OnlyAdminPinsComments Error 4000 True st"
  using assms by (simp_all add: deleteComment_def pinComment_def)

lemma no_session_not_admin: "currentUser st = None \<Longrightarrow> \<not> truthy (session_isAdmin st)"
  by (simp add: session_isAdmin_def)

text \<open>
  Claim C3 fails on the code for the user operations, which never look at the session.
  With no session, or with a session whose \<open>isAdmin\<close> is not true, \<open>lockUser\<close> toggles
  \<open>isLocked\<close> of a user other than \<open>zcr\<close>, \<open>deleteUser\<close> (once confirmed) removes the
  user and \<open>editUser\<close> stores a well-formed new e-mail address; each writes the users to
  the storage and raises a notice of success, none a notice of refusal.
\<close>

theorem user_operations_not_gated:
  assumes "\<not> truthy (session_isAdmin st)" and "uname \<noteq> ''zcr''"
    and "findIndex (\<lambda>u. username u = Some uname) (users st) = Some i"
    and "user = users st ! i"
  shows "users (lockUser uname st) =
           (users st)[i := user\<lparr>isLocked := Some (\<not> truthy (opt_bool (isLocked user)))\<rparr>] \<and>
         ls_users (lockUser uname st) = UArray (map EUser (users (lockUser uname st))) \<and>
         notifications (lockUser uname st) = notifications st @
           [\<lparr>n_message = UserLockToggled uname (\<not> truthy (opt_bool (isLocked user))),
             n_type = Success, n_duration = 3000, n_autoClose = True\<rparr>] \<and>
         users (deleteUser uname True st) = filter (\<lambda>u. username u \<noteq> Some uname) (users st) \<and>
         comments (deleteUser uname True st) = filter (\<lambda>c. author c \<noteq> uname) (comments st) \<and>
         ls_users (deleteUser uname True st) =
           UArray (map EUser (users (deleteUser uname True st))) \<and>
         notifications (deleteUser uname True st) = notifications st @
           [\<lparr>n_message = UserDeleted uname, n_type = Success, n_duration = 3000,
             n_autoClose = True\<rparr>] \<and>
         (newEmail \<noteq> [] \<and> validateEmail newEmail \<longrightarrow>
            users (editUser uname (Some newEmail) st) =
              (users st)[i := user\<lparr>email := Some newEmail\<rparr>] \<and>
            ls_users (editUser uname (Some newEmail) st) =
              UArray (map EUser (users (editUser uname (Some newEmail) st))) \<and>
            notifications (editUser uname (Some newEmail) st) = notifications st @
              [\<lparr>n_message = UserUpdated, n_type = Success, n_duration = 3000,
                n_autoClose = True\<rparr>])"
proof -
  have l: "users (lockUser uname st) =
           (users st)[i := user\<lparr>isLocked := Some (\<not> truthy (opt_bool (isLocked user)))\<rparr>] \<and>
         ls_users (lockUser uname st) = UArray (map EUser (users (lockUser uname st))) \<and>
         notifications (lockUser uname st) = notifications st @
           [\<lparr>n_message = UserLockToggled uname (\<not> truthy (opt_bool (isLocked user))),
             n_type = Success, n_duration = 3000, n_autoClose = True\<rparr>]"
    using assms(2,3) findIndex_Some [OF assms(3)]
    by (cases "isLocked (users st ! i)")
      (simp_all add: lockUser_def Let_def showNotification_def
        safeSetLocalStorage_blogUsers_def assms(4))
  have d: "users (deleteUser uname True st) = filter (\<lambda>u. username u \<noteq> Some uname) (users st) \<and>
         comments (deleteUser uname True st) = filter (\<lambda>c. author c \<noteq> uname) (comments st) \<and>
         ls_users (deleteUser uname True st) =
           UArray (map EUser (users (deleteUser uname True st))) \<and>
         notifications (deleteUser uname True st) = notifications st @
           [\<lparr>n_message = UserDeleted uname, n_type = Success, n_duration = 3000,
             n_autoClose = True\<rparr>]"
    using assms(2,3)
    by (simp add: deleteUser_def Let_def showNotification_def
        safeSetLocalStorage_blogUsers_def safeSetLocalStorage_blogComments_def
        safeSetLocalStorage_blogUser_def)
  have e: "users (editUser uname (Some newEmail) st) =
              (users st)[i := user\<lparr>email := Some newEmail\<rparr>] \<and>
            ls_users (editUser uname (Some newEmail) st) =
              UArray (map EUser (users (editUser uname (Some newEmail) st))) \<and>
            notifications (editUser uname (Some newEmail) st) = notifications st @
              [\<lparr>n_message = UserUpdated, n_type = Success, n_duration = 3000,
                n_autoClose = True\<rparr>]"
    if "newEmail \<noteq> [] \<and> validateEmail newEmail"
    using that assms(3)
    by (simp add: editUser_def Let_def showNotification_def
        safeSetLocalStorage_blogUsers_def assms(4))
  from l d e show ?thesis by blast
qed

text \<open>
  Nobody is logged in in the state \<open>app0\<close>; \<open>lockUser\<close> locks alice, \<open>deleteUser\<close>
  removes that user and the comment they wrote, \<open>editUser\<close> changes the address.
\<close>

theorem user_operations_not_gated_witness:
  "currentUser app0 = None \<and> \<not> truthy (session_isAdmin app0) \<and>
   users (lockUser ''alice'' app0) = [adminAccount 0, alice\<lparr>isLocked := Some True\<rparr>] \<and>
   ls_users (lockUser ''alice'' app0) =
     UArray [EUser (adminAccount 0), EUser (alice\<lparr>isLocked := Some True\<rparr>)] \<and>
   users (deleteUser ''alice'' True app0) = [adminAccount 0] \<and>
   comments (deleteUser ''alice'' True app0) = [] \<and>
   users (editUser ''alice'' (Some ''a@b.c'') app0) =
     [adminAccount 0, alice\<lparr>email := Some ''a@b.c''\<rparr>]"
proof -
  have s: "currentUser app0 = None" by (simp add: app0_def)
  then have n: "\<not> truthy (session_isAdmin app0)" by (rule no_session_not_admin)
  have fi: "findIndex (\<lambda>u. username u = Some ''alice'') (users app0) = Some 1"
    by (simp add: app0_def adminAccount_def alice_def)
  have u: "users app0 ! 1 = alice" "users app0 = [adminAccount 0, alice]"
    "comments app0 = [comment1]"
    by (simp_all add: app0_def)
  have a: "isLocked alice = None" "username alice = Some ''alice''"
    "username (adminAccount 0) = Some ''zcr''" "author comment1 = ''alice''"
    by (simp_all add: alice_def adminAccount_def comment1_def)
  have m: "''a@b.c'' \<noteq> [] \<and> validateEmail ''a@b.c''"
    by (simp add: validateEmail_def is_space_def)
  have z: "''alice'' \<noteq> ''zcr''" by simp
  from user_operations_not_gated [OF n z fi refl, of "''a@b.c''", unfolded u] m
  have "users (lockUser ''alice'' app0) = [adminAccount 0, alice\<lparr>isLocked := Some True\<rparr>]"
    and "ls_users (lockUser ''alice'' app0) =
      UArray [EUser (adminAccount 0), EUser (alice\<lparr>isLocked := Some True\<rparr>)]"
    and "users (deleteUser ''alice'' True app0) = [adminAccount 0]"
    and "comments (deleteUser ''alice'' True app0) = []"
    and "users (editUser ''alice'' (Some ''a@b.c'') app0) =
      [adminAccount 0, alice\<lparr>email := Some ''a@b.c''\<rparr>]"
    by (simp_all add: a)
  with s n show ?thesis by simp
qed

subsection \<open>The repair of the users on a read\<close>

lemma some_zcr_Some: "some_zcr es = Some h \<Longrightarrow> h = stored_has_zcr es"
proof (induction es)
  case Nil
  then show ?case by (simp add: stored_has_zcr_def)
next
  case (Cons e es)
  show ?case
  proof (cases e)
    case ENull
    with Cons.prems show ?thesis by simp
  next
    case EOther
    with Cons show ?thesis by (simp add: stored_has_zcr_def)
  next
    case (EUser u)
    with Cons show ?thesis
      by (cases "username u = Some ''zcr''") (simp_all add: stored_has_zcr_def)
  qed
qed

lemma some_zcr_None_nonempty: "some_zcr es = None \<Longrightarrow> es \<noteq> []"
  by auto

lemma valid_entries_filter:
  "map EUser (valid_entries es) = filter complete_entry es"
proof (induction es)
  case Nil
  then show ?case by simp
next
  case (Cons e es)
  then show ?case by (cases e) auto
qed

lemma valid_entries_le: "length (valid_entries es) \<le> length es"
proof (induction es)
  case Nil
  then show ?case by simp
next
  case (Cons e es)
  then show ?case by (cases e) auto
qed

lemma valid_entries_length:
  "length (valid_entries es) = length es \<longleftrightarrow> (\<forall>e \<in> set es. complete_entry e)"
proof (induction es)
  case Nil
  then show ?case by simp
next
  case (Cons e es)
  have le: "length (valid_entries es) \<le> length es" by (rule valid_entries_le)
  show ?case
  proof (cases "complete_entry e")
    case True
    then obtain u where "e = EUser u" "truthy_str (username u)" "truthy_str (password u)"
      by (cases e) auto
    with Cons.IH show ?thesis by simp
  next
    case False
    then have "valid_entries (e # es) = valid_entries es"
      by (cases e) auto
    with le False show ?thesis by simp
  qed
qed

text \<open>
  Where the test for the administrator runs through (no \<open>null\<close> element before the
  first record named \<open>zcr\<close>), the read repairs as intended. If the stored array is
  empty while the in-memory users are not, or it has no record named \<open>zcr\<close> while the
  in-memory users have one, the in-memory users are written to the storage and
  returned. Otherwise the entries that are objects with a non-empty \<open>username\<close> and
  \<open>password\<close> are returned, and the storage holds exactly these afterwards.
\<close>

lemma safeGetLocalStorage_blogUsers_repair:
  assumes "ls_users st = UArray parsed" and "some_zcr parsed = Some h"
  shows "((parsed = [] \<and> users st \<noteq> []) \<or> (\<not> stored_has_zcr parsed \<and> has_zcr (users st)) \<longrightarrow>
           safeGetLocalStorage_blogUsers d st =
             (users st, st\<lparr>ls_users := UArray (map EUser (users st))\<rparr>)) \<and>
         (\<not> ((parsed = [] \<and> users st \<noteq> []) \<or> (\<not> stored_has_zcr parsed \<and> has_zcr (users st))) \<longrightarrow>
           map EUser (fst (safeGetLocalStorage_blogUsers d st)) = filter complete_entry parsed \<and>
           snd (safeGetLocalStorage_blogUsers d st) =
             st\<lparr>ls_users := UArray (filter complete_entry parsed)\<rparr>)"
proof -
  have h: "h = stored_has_zcr parsed"
    using assms(2) by (rule some_zcr_Some)
  show ?thesis
  proof (intro conjI impI)
    assume c: "(parsed = [] \<and> users st \<noteq> []) \<or> (\<not> stored_has_zcr parsed \<and> has_zcr (users st))"
    show "safeGetLocalStorage_blogUsers d st =
        (users st, st\<lparr>ls_users := UArray (map EUser (users st))\<rparr>)"
    proof (cases "parsed = [] \<and> users st \<noteq> []")
      case True
      with assms(1) show ?thesis
        by (simp add: safeGetLocalStorage_blogUsers_def restore_users_def)
    next
      case False
      with c have z: "\<not> stored_has_zcr parsed" "has_zcr (users st)" by auto
      from z(2) have "users st \<noteq> []" by (rule has_zcr_nonempty)
      with z assms h False show ?thesis
        by (simp add: safeGetLocalStorage_blogUsers_def restore_users_def has_zcr_def)
    qed
  next
    assume c: "\<not> ((parsed = [] \<and> users st \<noteq> []) \<or>
      (\<not> stored_has_zcr parsed \<and> has_zcr (users st)))"
    have nz: "users st \<noteq> [] \<and> (\<exists>u \<in> set (users st). username u = Some ''zcr'') \<longleftrightarrow>
        has_zcr (users st)"
      by (auto simp: has_zcr_def)
    have g: "safeGetLocalStorage_blogUsers d st =
        (if length (valid_entries parsed) \<noteq> length parsed
         then (valid_entries parsed, st\<lparr>ls_users := UArray (map EUser (valid_entries parsed))\<rparr>)
         else (valid_entries parsed, st))"
      using c assms h nz
      by (auto simp: safeGetLocalStorage_blogUsers_def Let_def)
    show "map EUser (fst (safeGetLocalStorage_blogUsers d st)) = filter complete_entry parsed"
      by (simp add: g valid_entries_filter)
    show "snd (safeGetLocalStorage_blogUsers d st) =
        st\<lparr>ls_users := UArray (filter complete_entry parsed)\<rparr>"
    proof (cases "length (valid_entries parsed) = length parsed")
      case True
      then have "filter complete_entry parsed = parsed"
        by (simp add: valid_entries_length)
      with True assms(1) show ?thesis
        by (simp add: g)
    next
      case False
      then show ?thesis by (simp add: g valid_entries_filter)
    qed
  qed
qed

text \<open>
  Reads in the state \<open>app0\<close>, whose memory holds \<open>zcr\<close> and alice: with an empty stored
  array and with a stored array that holds alice only, the memory is written back and
  returned; with the memory emptied and a stored array of alice, a record without a
  digest and a number, alice alone is returned and stored; with a stored array of
  \<open>zcr\<close> followed by \<open>null\<close>, the \<open>null\<close> is dropped.
\<close>

lemma safeGetLocalStorage_blogUsers_repair_examples:
  "safeGetLocalStorage_blogUsers [] (app0\<lparr>ls_users := UArray []\<rparr>) =
     ([adminAccount 0, alice], app0) \<and>
   safeGetLocalStorage_blogUsers [] (app0\<lparr>ls_users := UArray [EUser alice]\<rparr>) =
     ([adminAccount 0, alice], app0) \<and>
   map EUser (fst (safeGetLocalStorage_blogUsers []
      (app0\<lparr>users := [], ls_users := UArray [EUser alice, EUser (alice\<lparr>password := None\<rparr>), EOther]\<rparr>))) =
     [EUser alice] \<and>
   ls_users (snd (safeGetLocalStorage_blogUsers []
      (app0\<lparr>users := [], ls_users := UArray [EUser alice, EUser (alice\<lparr>password := None\<rparr>), EOther]\<rparr>))) =
     UArray [EUser alice] \<and>
   safeGetLocalStorage_blogUsers [] (app0\<lparr>ls_users := UArray [EUser (adminAccount 0), ENull]\<rparr>) =
     ([adminAccount 0], app0\<lparr>ls_users := UArray [EUser (adminAccount 0)]\<rparr>)"
proof -
  let ?bad = "[EUser alice, EUser (alice\<lparr>password := None\<rparr>), EOther]"
  let ?nul = "[EUser (adminAccount 0), ENull]"
  have a: "username alice = Some ''alice''" "password alice = Some (hashPassword ''abc123'')"
    "hashPassword ''abc123'' \<noteq> []" "username (adminAccount 0) = Some ''zcr''"
    "password (adminAccount 0) = Some (hashPassword ''20120508'')"
    "hashPassword ''20120508'' \<noteq> []"
    by (simp_all add: alice_def adminAccount_def hashPassword_def hash_step_def digit_char_def)
  have z: "has_zcr (users app0)" "users app0 = [adminAccount 0, alice]"
    "\<not> stored_has_zcr [EUser alice]" "\<not> stored_has_zcr ?bad" "\<not> has_zcr []"
    "stored_has_zcr ?nul"
    by (simp_all add: app0_def has_zcr_def stored_has_zcr_def a)
  have s: "some_zcr [] = Some False" "some_zcr [EUser alice] = Some False"
    "some_zcr ?bad = Some False" "some_zcr ?nul = Some True"
    by (simp_all add: a)
  have w: "app0\<lparr>ls_users := UArray (map EUser [adminAccount 0, alice])\<rparr> = app0"
    by (simp add: app0_def)
  have f: "filter complete_entry ?bad = [EUser alice]"
    "filter complete_entry ?nul = [EUser (adminAccount 0)]"
    by (simp_all add: a)
  have 1: "safeGetLocalStorage_blogUsers [] (app0\<lparr>ls_users := UArray []\<rparr>) =
      ([adminAccount 0, alice], app0)"
    using safeGetLocalStorage_blogUsers_repair
      [of "app0\<lparr>ls_users := UArray []\<rparr>" "[]" False "[]"] z w s
    by simp
  have 2: "safeGetLocalStorage_blogUsers [] (app0\<lparr>ls_users := UArray [EUser alice]\<rparr>) =
      ([adminAccount 0, alice], app0)"
    using safeGetLocalStorage_blogUsers_repair
      [of "app0\<lparr>ls_users := UArray [EUser alice]\<rparr>" "[EUser alice]" False "[]"] z w s
    by simp
  have 3: "map EUser (fst (safeGetLocalStorage_blogUsers []
        (app0\<lparr>users := [], ls_users := UArray ?bad\<rparr>))) = [EUser alice] \<and>
      ls_users (snd (safeGetLocalStorage_blogUsers []
        (app0\<lparr>users := [], ls_users := UArray ?bad\<rparr>))) = UArray [EUser alice]"
    using safeGetLocalStorage_blogUsers_repair
      [of "app0\<lparr>users := [], ls_users := UArray ?bad\<rparr>" ?bad False "[]"] z f s
    by simp
  have "map EUser (fst (safeGetLocalStorage_blogUsers [] (app0\<lparr>ls_users := UArray ?nul\<rparr>))) =
      [EUser (adminAccount 0)] \<and>
    snd (safeGetLocalStorage_blogUsers [] (app0\<lparr>ls_users := UArray ?nul\<rparr>)) =
      app0\<lparr>ls_users := UArray [EUser (adminAccount 0)]\<rparr>"
    using safeGetLocalStorage_blogUsers_repair
      [of "app0\<lparr>ls_users := UArray ?nul\<rparr>" ?nul True "[]"] z f s
    by simp
  then have 4: "safeGetLocalStorage_blogUsers [] (app0\<lparr>ls_users := UArray ?nul\<rparr>) =
     ([adminAccount 0], app0\<lparr>ls_users := UArray [EUser (adminAccount 0)]\<rparr>)"
    by (cases "safeGetLocalStorage_blogUsers [] (app0\<lparr>ls_users := UArray ?nul\<rparr>)") auto
  from 1 2 3 4 show ?thesis by blast
qed

text \<open>
  Claim C7 fails on the code where the test for the administrator,
  \<open>parsed.some(user => user.username === 'zcr')\<close>, meets a \<open>null\<close> element before
  a record named \<open>zcr\<close>: reading \<open>username\<close> of \<open>null\<close> throws, and the \<open>catch\<close>
  around \<open>JSON.parse\<close> answers with the default value. The read then writes nothing
  and returns the default, whatever the memory holds, also when the stored array lacks
  \<open>zcr\<close> and the memory has it; a reload of \<open>this.users\<close> from such a storage leaves
  the memory empty. The filter that follows the test does guard against \<open>null\<close>
  (\<open>user && ...\<close>).
\<close>

theorem safeGetLocalStorage_blogUsers_null_entry:
  assumes "ls_users st = UArray parsed" and "some_zcr parsed = None"
  shows "safeGetLocalStorage_blogUsers d st = (d, st) \<and>
         users (reloadUsers st) = [] \<and> ls_users (reloadUsers st) = UArray parsed"
proof -
  from assms(2) have "parsed \<noteq> []" by (rule some_zcr_None_nonempty)
  with assms have g: "safeGetLocalStorage_blogUsers d st = (d, st)" for d
    by (simp add: safeGetLocalStorage_blogUsers_def)
  with assms(1) show ?thesis
    by (simp add: reloadUsers_def)
qed

text \<open>
  In the state \<open>app0\<close> with \<open>[null]\<close> stored under \<open>blogUsers\<close>: the stored array lacks
  \<open>zcr\<close>, the memory holds it, and the read returns the empty default and leaves the
  storage as it is; the reload empties \<open>this.users\<close>.
\<close>

theorem safeGetLocalStorage_blogUsers_null_entry_witness:
  "has_zcr (users (app0\<lparr>ls_users := UArray [ENull]\<rparr>)) \<and>
   \<not> stored_has_zcr [ENull] \<and>
   safeGetLocalStorage_blogUsers [] (app0\<lparr>ls_users := UArray [ENull]\<rparr>) =
     ([], app0\<lparr>ls_users := UArray [ENull]\<rparr>) \<and>
   users (reloadUsers (app0\<lparr>ls_users := UArray [ENull]\<rparr>)) = [] \<and>
   ls_users (reloadUsers (app0\<lparr>ls_users := UArray [ENull]\<rparr>)) = UArray [ENull]"
proof -
  have m: "has_zcr (users (app0\<lparr>ls_users := UArray [ENull]\<rparr>)) \<and> \<not> stored_has_zcr [ENull]"
    by (simp add: app0_def has_zcr_def stored_has_zcr_def adminAccount_def)
  have l: "ls_users (app0\<lparr>ls_users := UArray [ENull]\<rparr>) = UArray [ENull]"
    and n: "some_zcr [ENull] = None"
    by simp_all
  from safeGetLocalStorage_blogUsers_null_entry [OF l n, of "[]"] m
  show ?thesis by blast
qed

subsection \<open>Comments\<close>

text \<open>
  \<open>trim\<close> leaves a trimmed string as it is, so the content that the form handler
  passes to \<open>submitComment\<close> is its own trimmed form.
\<close>

lemma last_dropWhile: "dropWhile P xs \<noteq> [] \<Longrightarrow> last (dropWhile P xs) = last xs"
  by (induction xs) (auto split: if_splits)

lemma trim_ends:
  "trim s = [] \<or> (\<not> is_space (hd (trim s)) \<and> \<not> is_space (last (trim s)))"
proof (cases "trim s = []")
  case True
  then show ?thesis by simp
next
  case False
  let ?a = "dropWhile is_space s"
  let ?b = "dropWhile is_space (rev ?a)"
  from False have b: "?b \<noteq> []" by (simp add: trim_def)
  have a: "?a \<noteq> []"
  proof
    assume e: "?a = []"
    have "?b = []" by (simp only: e) simp
    with b show False by simp
  qed
  from b have "\<not> is_space (hd ?b)" by (rule hd_dropWhile)
  with b have l: "\<not> is_space (last (trim s))"
    by (simp add: trim_def last_rev)
  from b have "last ?b = last (rev ?a)" by (rule last_dropWhile)
  with a have "last ?b = hd ?a" by (simp add: last_rev)
  moreover from a have "\<not> is_space (hd ?a)" by (rule hd_dropWhile)
  ultimately have "\<not> is_space (hd (trim s))"
    using b by (simp add: trim_def hd_rev)
  with l show ?thesis by simp
qed

lemma trim_fixed:
  assumes "s = [] \<or> (\<not> is_space (hd s) \<and> \<not> is_space (last s))"
  shows "trim s = s"
proof (cases "s = []")
  case True
  then show ?thesis by (simp add: trim_def)
next
  case False
  with assms have h: "\<not> is_space (hd s)" and l: "\<not> is_space (last s)" by simp_all
  from False h have 1: "dropWhile is_space s = s"
    by (cases s) simp_all
  from False l have "\<not> is_space (hd (rev s))" by (simp add: hd_rev)
  with False have 2: "dropWhile is_space (rev s) = rev s"
    by (cases "rev s") simp_all
  show ?thesis by (simp add: trim_def 1 2)
qed

lemma trim_trim: "trim (trim s) = trim s"
  by (rule trim_fixed) (rule trim_ends)

text \<open>
  \<open>submitComment\<close> measures the content as it is passed: a length between 2 and 1000
  is accepted, any other length is refused with one error notice.
\<close>

lemma submitComment_accepts:
  assumes "aid \<noteq> []" and "auth \<noteq> []" and "2 \<le> length cont" and "length cont \<le> 1000"
  shows "submitComment aid auth cont now rnd st =
           (True,
            st\<lparr>comments := comments st @
                 [\<lparr>c_id = ''comment_'' @ toString10_int now @ ''_'' @ rnd, articleId = aid,
                   author = trim auth, c_content = trim cont, c_createdAt = now,
                   c_isAdmin = session_isAdmin st, isPinned = False\<rparr>],
               ls_comments := Parsed (comments st @
                 [\<lparr>c_id = ''comment_'' @ toString10_int now @ ''_'' @ rnd, articleId = aid,
                   author = trim auth, c_content = trim cont, c_createdAt = now,
                   c_isAdmin = session_isAdmin st, isPinned = False\<rparr>]),
               notifications := notifications st @
                 [\<lparr>n_message = CommentPosted, n_type = Success, n_duration = 2500,
                   n_autoClose = True\<rparr>]\<rparr>)"
proof -
  from assms(3) have "cont \<noteq> []" by auto
  with assms show ?thesis
    by (simp add: submitComment_def Let_def showNotification_def saveComments_def
        safeSetLocalStorage_blogComments_def)
qed

lemma submitComment_refuses:
  assumes "aid \<noteq> []" and "auth \<noteq> []" and "length cont < 2 \<or> 1000 < length cont"
  shows "submitComment aid auth cont now rnd st =
           (False,
            st\<lparr>notifications := notifications st @
               [\<lparr>n_message = (if cont = [] then CommentIncomplete
                                else if length cont < 2 then CommentTooShort
                                else CommentTooLong),
                 n_type = Error,
                 n_duration = (if cont \<noteq> [] \<and> length cont < 2 then 3000 else 4000),
                 n_autoClose = True\<rparr>]\<rparr>)"
  using assms by (auto simp: submitComment_def showNotification_def)

text \<open>
  Claim C8. For a non-empty article id and author, and a content that is trimmed, as
  the form handler passes it, \<open>submitComment\<close> accepts the content when its trimmed
  length lies between 2 and 1000, exactly 2 and exactly 1000 included: it returns true,
  appends one comment that holds that content and writes the collection to the storage.
  It refuses a content of length below 2 or above 1000, trimmed or not: it returns
  false, raises one error notice and leaves the comments, in memory and in the storage,
  as they were.
\<close>

theorem submitComment_boundary:
  assumes "aid \<noteq> []" and "auth \<noteq> []"
  shows "(trim cont = cont \<and> 2 \<le> length (trim cont) \<and> length (trim cont) \<le> 1000 \<longrightarrow>
           fst (submitComment aid auth cont now rnd st) = True \<and>
           comments (snd (submitComment aid auth cont now rnd st)) = comments st @
             [\<lparr>c_id = ''comment_'' @ toString10_int now @ ''_'' @ rnd, articleId = aid,
               author = trim auth, c_content = cont, c_createdAt = now,
               c_isAdmin = session_isAdmin st, isPinned = False\<rparr>] \<and>
           ls_comments (snd (submitComment aid auth cont now rnd st)) =
             Parsed (comments (snd (submitComment aid auth cont now rnd st)))) \<and>
         (length cont < 2 \<or> 1000 < length cont \<longrightarrow>
           fst (submitComment aid auth cont now rnd st) = False \<and>
           comments (snd (submitComment aid auth cont now rnd st)) = comments st \<and>
           ls_comments (snd (submitComment aid auth cont now rnd st)) = ls_comments st \<and>
           notifications (snd (submitComment aid auth cont now rnd st)) = notifications st @
             [\<lparr>n_message = (if cont = [] then CommentIncomplete
                              else if length cont < 2 then CommentTooShort else CommentTooLong),
               n_type = Error,
               n_duration = (if cont \<noteq> [] \<and> length cont < 2 then 3000 else 4000),
               n_autoClose = True\<rparr>])"
proof (intro conjI impI)
  assume a: "trim cont = cont \<and> 2 \<le> length (trim cont) \<and> length (trim cont) \<le> 1000"
  then have t: "trim cont = cont" by blast
  from a have "2 \<le> length (trim cont)" and "length (trim cont) \<le> 1000" by blast+
  then have b: "2 \<le> length cont" "length cont \<le> 1000"
    by (simp_all only: t)
  note acc = submitComment_accepts [OF assms b, of now rnd st]
  show "fst (submitComment aid auth cont now rnd st) = True"
    by (simp add: acc)
  show "comments (snd (submitComment aid auth cont now rnd st)) = comments st @
             [\<lparr>c_id = ''comment_'' @ toString10_int now @ ''_'' @ rnd, articleId = aid,
               author = trim auth, c_content = cont, c_createdAt = now,
               c_isAdmin = session_isAdmin st, isPinned = False\<rparr>]"
    by (simp add: acc t)
  show "ls_comments (snd (submitComment aid auth cont now rnd st)) =
             Parsed (comments (snd (submitComment aid auth cont now rnd st)))"
    by (simp add: acc)
next
  assume a: "length cont < 2 \<or> 1000 < length cont"
  note ref = submitComment_refuses [OF assms a, of now rnd st]
  show "fst (submitComment aid auth cont now rnd st) = False"
    by (simp add: ref)
  show "comments (snd (submitComment aid auth cont now rnd st)) = comments st"
    by (simp add: ref)
  show "ls_comments (snd (submitComment aid auth cont now rnd st)) = ls_comments st"
    by (simp add: ref)
  show "notifications (snd (submitComment aid auth cont now rnd st)) = notifications st @
             [\<lparr>n_message = (if cont = [] then CommentIncomplete
                              else if length cont < 2 then CommentTooShort else CommentTooLong),
               n_type = Error,
               n_duration = (if cont \<noteq> [] \<and> length cont < 2 then 3000 else 4000),
               n_autoClose = True\<rparr>]"
    by (simp add: ref)
qed

text \<open>
  In the state \<open>app0\<close>: \<open>Hi\<close> (length 2) and a content of 1000 letters are accepted,
  \<open>H\<close> and a content of 1001 letters are refused.
\<close>

theorem submitComment_boundary_witness:
  "trim ''Hi'' = ''Hi'' \<and> length (trim ''Hi'') = 2 \<and>
   fst (submitComment ''a1'' ''Al'' ''Hi'' 1000 ''k3x'' app0) = True \<and>
   comments (snd (submitComment ''a1'' ''Al'' ''Hi'' 1000 ''k3x'' app0)) =
     [comment1,
      \<lparr>c_id = ''comment_1000_k3x'', articleId = ''a1'', author = ''Al'', c_content = ''Hi'',
        c_createdAt = 1000, c_isAdmin = JNull, isPinned = False\<rparr>] \<and>
   ls_comments (snd (submitComment ''a1'' ''Al'' ''Hi'' 1000 ''k3x'' app0)) =
     Parsed [comment1,
      \<lparr>c_id = ''comment_1000_k3x'', articleId = ''a1'', author = ''Al'', c_content = ''Hi'',
        c_createdAt = 1000, c_isAdmin = JNull, isPinned = False\<rparr>] \<and>
   trim (replicate 1000 (CHR ''x'')) = replicate 1000 (CHR ''x'') \<and>
   length (trim (replicate 1000 (CHR ''x''))) = 1000 \<and>
   fst (submitComment ''a1'' ''Al'' (replicate 1000 (CHR ''x'')) 1000 ''k3x'' app0) = True \<and>
   fst (submitComment ''a1'' ''Al'' ''H'' 1000 ''k3x'' app0) = False \<and>
   comments (snd (submitComment ''a1'' ''Al'' ''H'' 1000 ''k3x'' app0)) = [comment1] \<and>
   fst (submitComment ''a1'' ''Al'' (replicate 1001 (CHR ''x'')) 1000 ''k3x'' app0) = False \<and>
   comments (snd (submitComment ''a1'' ''Al'' (replicate 1001 (CHR ''x'')) 1000 ''k3x'' app0)) =
     [comment1]"
proof -
  have ne: "''a1'' \<noteq> []" "''Al'' \<noteq> []" by simp_all
  have c: "comments app0 = [comment1]" "session_isAdmin app0 = JNull"
    by (simp_all add: app0_def session_isAdmin_def)
  have t: "trim ''Al'' = ''Al''" "trim ''Hi'' = ''Hi''"
    by (simp_all add: trim_def is_space_def)
  have x: "trim (replicate 1000 (CHR ''x'')) = replicate 1000 (CHR ''x'')"
    by (rule trim_fixed) (simp add: is_space_def)
  have i: "toString10_int 1000 = ''1000''"
    by (simp add: toString10_int_def digit_char_def)
  from submitComment_boundary [OF ne, of "''Hi''" 1000 "''k3x''" app0]
    submitComment_boundary [OF ne, of "replicate 1000 (CHR ''x'')" 1000 "''k3x''" app0]
    submitComment_boundary [OF ne, of "''H''" 1000 "''k3x''" app0]
    submitComment_boundary [OF ne, of "replicate 1001 (CHR ''x'')" 1000 "''k3x''" app0]
  show ?thesis
    by (simp add: c t x i)
qed

text \<open>
  The form handler trims before it calls \<open>submitComment\<close>, so for the text typed into
  the form the bound is on the trimmed length: with an article id and an author that is
  not blank, a content whose trimmed length lies between 2 and 1000 is appended,
  trimmed, and stored; any other content leaves the comments as they were.
\<close>

lemma commentFormSubmit_trimmed:
  assumes "aid \<noteq> []" and "trim authorValue \<noteq> []"
  shows "(2 \<le> length (trim contentValue) \<and> length (trim contentValue) \<le> 1000 \<longrightarrow>
           comments (commentFormSubmit (Some aid) (Some (authorValue, contentValue)) now rnd st) =
             comments st @
               [\<lparr>c_id = ''comment_'' @ toString10_int now @ ''_'' @ rnd, articleId = aid,
                 author = trim authorValue, c_content = trim contentValue, c_createdAt = now,
                 c_isAdmin = session_isAdmin st, isPinned = False\<rparr>] \<and>
           ls_comments (commentFormSubmit (Some aid) (Some (authorValue, contentValue)) now rnd st) =
             Parsed (comments
               (commentFormSubmit (Some aid) (Some (authorValue, contentValue)) now rnd st))) \<and>
         (length (trim contentValue) < 2 \<or> 1000 < length (trim contentValue) \<longrightarrow>
           comments (commentFormSubmit (Some aid) (Some (authorValue, contentValue)) now rnd st) =
             comments st \<and>
           ls_comments (commentFormSubmit (Some aid) (Some (authorValue, contentValue)) now rnd st) =
             ls_comments st)"
proof (intro conjI impI)
  assume a: "2 \<le> length (trim contentValue) \<and> length (trim contentValue) \<le> 1000"
  then have ne: "trim contentValue \<noteq> []" by auto
  from a have b: "2 \<le> length (trim contentValue)" "length (trim contentValue) \<le> 1000"
    by simp_all
  note acc = submitComment_accepts [OF assms b, of now rnd st]
  from assms ne show "comments (commentFormSubmit (Some aid) (Some (authorValue, contentValue)) now rnd st) =
             comments st @
               [\<lparr>c_id = ''comment_'' @ toString10_int now @ ''_'' @ rnd, articleId = aid,
                 author = trim authorValue, c_content = trim contentValue, c_createdAt = now,
                 c_isAdmin = session_isAdmin st, isPinned = False\<rparr>]"
    by (simp add: commentFormSubmit_def Let_def acc trim_trim)
  from assms ne show "ls_comments (commentFormSubmit (Some aid) (Some (authorValue, contentValue)) now rnd st) =
             Parsed (comments
               (commentFormSubmit (Some aid) (Some (authorValue, contentValue)) now rnd st))"
    by (simp add: commentFormSubmit_def Let_def acc)
next
  assume a: "length (trim contentValue) < 2 \<or> 1000 < length (trim contentValue)"
  note ref = submitComment_refuses [OF assms a, of now rnd st]
  from assms show "comments (commentFormSubmit (Some aid) (Some (authorValue, contentValue)) now rnd st) =
             comments st"
    by (simp add: commentFormSubmit_def Let_def ref showNotification_def)
  from assms show "ls_comments (commentFormSubmit (Some aid) (Some (authorValue, contentValue)) now rnd st) =
             ls_comments st"
    by (simp add: commentFormSubmit_def Let_def ref showNotification_def)
qed

end
